theory Spec2Isabelle
  imports Complex_Main "HOL-Library.Sublist" "HOL-Library.AList" "HOL-Library.Multiset"
begin

section \<open>Text\<close>

text \<open>
  A JavaScript string is modelled as a \<open>string\<close>: the UTF-8 bytes of its characters, so
  that an ASCII character is one byte and a name outside ASCII is a few bytes per
  character.

  White space is what the regular expression class \<open>\s\<close> and \<open>String.prototype.trim\<close>
  accept, the \<open>WhiteSpace\<close> and \<open>LineTerminator\<close> characters of ECMAScript: tab
  (U+0009), line feed (U+000A), vertical tab (U+000B), form feed (U+000C), carriage return
  (U+000D), space (U+0020), no-break space (U+00A0), the byte order mark (U+FEFF), the line
  and paragraph separators (U+2028, U+2029) and the other space separators of Unicode:
  U+1680, U+2000 to U+200A, U+202F, U+205F and the ideographic space U+3000. Each is given
  by its UTF-8 bytes.
\<close>

definition white_space :: "string list" where
  "white_space =
     [[CHR 0x09], [CHR 0x0A], [CHR 0x0B], [CHR 0x0C], [CHR 0x0D], [CHR 0x20],
      [CHR 0xC2, CHR 0xA0],
      [CHR 0xE1, CHR 0x9A, CHR 0x80],
      [CHR 0xE2, CHR 0x80, CHR 0x80], [CHR 0xE2, CHR 0x80, CHR 0x81],
      [CHR 0xE2, CHR 0x80, CHR 0x82], [CHR 0xE2, CHR 0x80, CHR 0x83],
      [CHR 0xE2, CHR 0x80, CHR 0x84], [CHR 0xE2, CHR 0x80, CHR 0x85],
      [CHR 0xE2, CHR 0x80, CHR 0x86], [CHR 0xE2, CHR 0x80, CHR 0x87],
      [CHR 0xE2, CHR 0x80, CHR 0x88], [CHR 0xE2, CHR 0x80, CHR 0x89],
      [CHR 0xE2, CHR 0x80, CHR 0x8A],
      [CHR 0xE2, CHR 0x80, CHR 0xA8], [CHR 0xE2, CHR 0x80, CHR 0xA9],
      [CHR 0xE2, CHR 0x80, CHR 0xAF],
      [CHR 0xE2, CHR 0x81, CHR 0x9F],
      [CHR 0xE3, CHR 0x80, CHR 0x80],
      [CHR 0xEF, CHR 0xBB, CHR 0xBF]]"

definition isSpace :: "string \<Rightarrow> bool" where
  "isSpace u = (u \<in> set white_space)"

text \<open>
  The length in bytes of the white space character that a text starts with, or 0 when it
  starts with none; and the text cut into symbols: each white space character is one
  symbol, and every other byte is a symbol by itself. No white space character starts with
  a continuation byte of UTF-8, so inside the bytes of another character none is found.
\<close>

definition space_at :: "string \<Rightarrow> nat" where
  "space_at s =
     (if isSpace (take 1 s) then 1
      else if isSpace (take 2 s) then 2
      else if isSpace (take 3 s) then 3
      else 0)"

function symbols :: "string \<Rightarrow> string list" where
  "symbols s =
     (if s = [] then []
      else let n = max 1 (space_at s) in take n s # symbols (drop n s))"
  by pat_completeness auto
termination
  by (relation "measure length") auto

declare symbols.simps [simp del]

text \<open>
  \<open>input.split(/[\s\n]+/)\<close>: the pieces between the maximal runs of white space. A
  leading or trailing run leaves an empty piece at that end, and the empty string gives
  one empty piece. \<open>split_ws\<close> works on the symbols, \<open>split_text\<close> on the text.
\<close>

function split_ws :: "string list \<Rightarrow> string list list" where
  "split_ws s =
     (let piece = takeWhile (\<lambda>c. \<not> isSpace c) s;
          rest = dropWhile (\<lambda>c. \<not> isSpace c) s
      in if rest = [] then [piece] else piece # split_ws (dropWhile isSpace rest))"
  by pat_completeness auto
termination
proof (relation "measure length")
  show "wf (measure length)" by simp
next
  fix s :: "string list" and piece rest
  assume rest: "rest = dropWhile (\<lambda>c. \<not> isSpace c) s" and ne: "rest \<noteq> []"
  from ne obtain c cs where cs: "rest = c # cs" by (cases rest) auto
  have "length (dropWhile isSpace rest) \<le> length rest"
    by (rule length_dropWhile_le)
  moreover have "isSpace c"
    using cs rest hd_dropWhile [of "\<lambda>c. \<not> isSpace c" s] by auto
  then have "length (dropWhile isSpace rest) < length rest"
    using cs length_dropWhile_le [of isSpace cs] by simp
  moreover have "length rest \<le> length s"
    unfolding rest by (rule length_dropWhile_le)
  ultimately show "(dropWhile isSpace rest, s) \<in> measure length" by simp
qed

declare split_ws.simps [simp del]

definition split_text :: "string \<Rightarrow> string list" where
  "split_text s = map concat (split_ws (symbols s))"

text \<open>\<open>name.trim()\<close>: white space removed from both ends.\<close>

definition trim :: "string \<Rightarrow> string" where
  "trim s = concat (rev (dropWhile isSpace (rev (dropWhile isSpace (symbols s)))))"

text \<open>\<open>parseNames\<close> of \<open>src/app/page.tsx\<close>: split, trim each piece, keep the non-empty ones.\<close>

definition parseNames :: "string \<Rightarrow> string list" where
  "parseNames input = filter (\<lambda>name. length name > 0) (map trim (split_text input))"

text \<open>
  The reading of the specification's sentence on name parsing, to compare with
  \<open>parseNames\<close>: skip a run of white space, take the run of other symbols that follows
  as one name, and go on behind it.
\<close>

function name_tokens :: "string list \<Rightarrow> string list list" where
  "name_tokens s =
     (let t = dropWhile isSpace s
      in if t = [] then []
         else takeWhile (\<lambda>c. \<not> isSpace c) t # name_tokens (dropWhile (\<lambda>c. \<not> isSpace c) t))"
  by pat_completeness auto
termination
proof (relation "measure length")
  show "wf (measure length)" by simp
next
  fix s :: "string list" and t
  assume t: "t = dropWhile isSpace s" and ne: "t \<noteq> []"
  from ne obtain c cs where cs: "t = c # cs" by (cases t) auto
  have "\<not> isSpace c"
    using cs t hd_dropWhile [of isSpace s] by auto
  then have "length (dropWhile (\<lambda>c. \<not> isSpace c) t) < length t"
    using cs length_dropWhile_le [of "\<lambda>c. \<not> isSpace c" cs] by simp
  moreover have "length t \<le> length s"
    unfolding t by (rule length_dropWhile_le)
  ultimately show "(dropWhile (\<lambda>c. \<not> isSpace c) t, s) \<in> measure length" by simp
qed

declare name_tokens.simps [simp del]

text \<open>
  \<open>toLowerCase\<close> on the ASCII letters; every other character is left as it is.
\<close>

definition lowerChar :: "char \<Rightarrow> char" where
  "lowerChar c =
     (let n = (of_char c :: nat)
      in if 65 \<le> n \<and> n \<le> 90 then ''abcdefghijklmnopqrstuvwxyz'' ! (n - 65) else c)"

definition toLowerCase :: "string \<Rightarrow> string" where
  "toLowerCase s = map lowerChar s"

text \<open>\<open>s.includes(sub)\<close>: \<open>sub\<close> occurs in \<open>s\<close> as a contiguous block.\<close>

fun includes_str :: "string \<Rightarrow> string \<Rightarrow> bool" where
  "includes_str [] sub = (sub = [])"
| "includes_str (c # cs) sub = (prefix sub (c # cs) \<or> includes_str cs sub)"

text \<open>\<open>s.startsWith(p)\<close>.\<close>

definition startsWith :: "string \<Rightarrow> string \<Rightarrow> bool" where
  "startsWith s p = prefix p s"

text \<open>
  \<open>Number.prototype.toString\<close> on an integer: the decimal digits, with a minus sign
  before a negative number. Record ids are integers (\<open>Date.now()\<close> on the browser side,
  the row id on the database side), far below the size at which JavaScript switches to
  exponent notation.
\<close>

definition digit :: "nat \<Rightarrow> char" where
  "digit n = ''0123456789'' ! (n mod 10)"

function show_nat :: "nat \<Rightarrow> string" where
  "show_nat n = (if n < 10 then [digit n] else show_nat (n div 10) @ [digit n])"
  by pat_completeness auto
termination
  by (relation "measure id") auto

declare show_nat.simps [simp del]

definition show_int :: "int \<Rightarrow> string" where
  "show_int i = (if i < 0 then CHR ''-'' # show_nat (nat (- i)) else show_nat (nat i))"

text \<open>
  \<open>Number.parseInt(text)\<close> in base ten: leading white space, an optional sign, then the
  longest run of decimal digits; \<open>None\<close> stands for \<open>NaN\<close> (no digit there). The
  hexadecimal reading of a text that starts with \<open>0x\<close> is left out: the store sends the
  decimal text of an id.
\<close>

definition isDigit :: "char \<Rightarrow> bool" where
  "isDigit c = (c \<in> set ''0123456789'')"

definition digit_val :: "char \<Rightarrow> nat" where
  "digit_val c = of_char c - 48"

definition read_nat :: "string \<Rightarrow> nat" where
  "read_nat ds = foldl (\<lambda>acc c. 10 * acc + digit_val c) 0 ds"

definition parse_digits :: "string \<Rightarrow> nat option" where
  "parse_digits s =
     (let ds = takeWhile isDigit s in if ds = [] then None else Some (read_nat ds))"

definition parseInt :: "string \<Rightarrow> int option" where
  "parseInt text =
     (case concat (dropWhile isSpace (symbols text)) of
        [] \<Rightarrow> None
      | c # cs \<Rightarrow>
          if c = CHR ''-'' then map_option (\<lambda>n. - int n) (parse_digits cs)
          else if c = CHR ''+'' then map_option int (parse_digits cs)
          else map_option int (parse_digits (c # cs)))"

text \<open>
  A three-way comparison of two texts character by character: negative, zero or positive
  as the first text comes before, equals or comes after the second. It is the order in
  which SQLite compares \<open>TEXT\<close> values, and one instance of what
  \<open>String.prototype.localeCompare\<close> may be.
\<close>

fun compare_text :: "string \<Rightarrow> string \<Rightarrow> int" where
  "compare_text [] [] = 0"
| "compare_text [] (d # ds) = - 1"
| "compare_text (c # cs) [] = 1"
| "compare_text (c # cs) (d # ds) =
     (if (of_char c :: nat) < of_char d then - 1
      else if (of_char d :: nat) < of_char c then 1
      else compare_text cs ds)"

text \<open>
  \<open>Array.prototype.sort(compare)\<close>: a stable sort; an element goes behind every element
  already placed that the comparison does not put after it.
\<close>

fun insert_by :: "('a \<Rightarrow> 'a \<Rightarrow> int) \<Rightarrow> 'a \<Rightarrow> 'a list \<Rightarrow> 'a list" where
  "insert_by cmp x [] = [x]"
| "insert_by cmp x (y # ys) = (if cmp x y < 0 then x # y # ys else y # insert_by cmp x ys)"

definition sort_by :: "('a \<Rightarrow> 'a \<Rightarrow> int) \<Rightarrow> 'a list \<Rightarrow> 'a list" where
  "sort_by cmp xs = fold (insert_by cmp) xs []"

section \<open>Records\<close>

text \<open>
  \<open>interface Record\<close> of \<open>src/app/page.tsx\<close> (and \<open>RecordData\<close> of the database
  service, which has the same fields). A draft is \<open>Omit<Record, "id">\<close>: it has no id
  field at all, and its \<open>created_at\<close> is optional. The fields \<open>id\<close> and \<open>type\<close> are
  written \<open>rec_id\<close> and \<open>rtype\<close> here.
\<close>

datatype rtype = Overtime | Leave

datatype duration = Full | Morning | Afternoon

fun type_text :: "rtype \<Rightarrow> string" where
  "type_text Overtime = ''overtime''"
| "type_text Leave = ''leave''"

record RecordDraft =
  names :: "string list"
  date :: string
  rtype :: rtype
  duration :: duration
  created_at :: "string option"

record Record = RecordDraft +
  rec_id :: "int option"

text \<open>
  What \<open>JSON.parse\<close> gives for one element of the stored array (\<open>record: any\<close> in the
  source): data written by an earlier version may lack \<open>duration\<close> and \<open>created_at\<close>,
  and \<open>id\<close> is optional as in the interface.
\<close>

record StoredRecord =
  s_id :: "int option"
  s_names :: "string list"
  s_date :: string
  s_type :: rtype
  s_duration :: "duration option"
  s_created_at :: "string option"

text \<open>
  The clock as one operation reads it: \<open>Date.now()\<close>, \<open>new Date().toISOString()\<close> in
  the browser and \<open>CURRENT_TIMESTAMP\<close> in the database. An operation is taken to run
  within one tick of the clock.
\<close>

record instant =
  ms :: int
  iso :: string
  sqltime :: string

text \<open>\<open>x || y\<close> on an optional text: a missing or empty \<open>x\<close> gives \<open>y\<close>.\<close>

definition or_else :: "string option \<Rightarrow> string \<Rightarrow> string" where
  "or_else x y = (case x of None \<Rightarrow> y | Some v \<Rightarrow> if v = [] then y else v)"

text \<open>
  The callback of \<open>loadedRecords.map\<close> in \<open>getLocalRecords\<close>:
  \<open>{...record, duration: record.duration || "full", created_at: record.created_at || now}\<close>.
\<close>

definition revive :: "instant \<Rightarrow> StoredRecord \<Rightarrow> Record" where
  "revive t r =
     \<lparr>names = s_names r, date = s_date r, rtype = s_type r,
      duration = (case s_duration r of None \<Rightarrow> Full | Some d \<Rightarrow> d),
      created_at = Some (or_else (s_created_at r) (iso t)),
      rec_id = s_id r\<rparr>"

text \<open>\<open>JSON.stringify\<close> of one record: a field that is \<open>undefined\<close> is not written.\<close>

definition stringify :: "Record \<Rightarrow> StoredRecord" where
  "stringify r =
     \<lparr>s_id = rec_id r, s_names = names r, s_date = date r, s_type = rtype r,
      s_duration = Some (duration r), s_created_at = created_at r\<rparr>"

section \<open>The ephemeral backend: the browser's local storage\<close>

text \<open>
  The value under the key \<open>attendance-records\<close>: nothing (\<open>getItem\<close> gives \<open>null\<close>), a
  text that \<open>JSON.parse\<close> or \<open>.map\<close> rejects, or an array of records. \<open>accepts\<close> says
  which values \<open>setItem\<close> takes; it raises on the others (the quota). \<open>NoWindow\<close> is
  the case \<open>typeof window === "undefined"\<close>.
\<close>

datatype item = Missing | Garbled | Saved "StoredRecord list"

record localStorage =
  item :: item
  accepts :: "StoredRecord list \<Rightarrow> bool"

datatype host = NoWindow | Window localStorage

datatype error = SyntaxError | QuotaExceededError | DatabaseError | CreateFailed

definition getLocalRecords :: "host \<Rightarrow> instant \<Rightarrow> error + Record list" where
  "getLocalRecords h t =
     (case h of
        NoWindow \<Rightarrow> Inr []
      | Window ls \<Rightarrow>
          (case item ls of
             Missing \<Rightarrow> Inr []
           | Garbled \<Rightarrow> Inl SyntaxError
           | Saved loadedRecords \<Rightarrow> Inr (map (revive t) loadedRecords)))"

definition setItem :: "localStorage \<Rightarrow> Record list \<Rightarrow> error + localStorage" where
  "setItem ls records =
     (let v = map stringify records
      in if accepts ls v then Inr (ls\<lparr>item := Saved v\<rparr>) else Inl QuotaExceededError)"

text \<open>
  The three private methods return their result, or the error they raise, together with
  the host as they leave it.
\<close>

text \<open>
  \<open>newRecord\<close> in \<open>saveLocalRecord\<close>:
  \<open>{id: Date.now(), ...record, created_at: record.created_at || new Date().toISOString()}\<close>.
  The draft has no \<open>id\<close> that the spread could put over \<open>Date.now()\<close>.
\<close>

definition newLocalRecord :: "RecordDraft \<Rightarrow> instant \<Rightarrow> Record" where
  "newLocalRecord record t =
     \<lparr>names = names record, date = date record, rtype = rtype record,
      duration = duration record,
      created_at = Some (or_else (created_at record) (iso t)),
      rec_id = Some (ms t)\<rparr>"

definition saveLocalRecord :: "RecordDraft \<Rightarrow> host \<Rightarrow> instant \<Rightarrow> (error + Record) \<times> host" where
  "saveLocalRecord record h t =
     (case getLocalRecords h t of
        Inl e \<Rightarrow> (Inl e, h)
      | Inr existingRecords \<Rightarrow>
          (let updatedRecords = newLocalRecord record t # existingRecords
           in case h of
                NoWindow \<Rightarrow> (Inr (newLocalRecord record t), h)
              | Window ls \<Rightarrow>
                  (case setItem ls updatedRecords of
                     Inl e \<Rightarrow> (Inl e, h)
                   | Inr ls' \<Rightarrow> (Inr (newLocalRecord record t), Window ls'))))"

text \<open>
  \<open>record.id?.toString() !== id\<close>: a record without an id gives \<open>undefined\<close>, which
  differs from every text.
\<close>

definition id_text :: "Record \<Rightarrow> string option" where
  "id_text r = map_option show_int (rec_id r)"

definition deleteLocalRecord :: "string \<Rightarrow> host \<Rightarrow> instant \<Rightarrow> (error + unit) \<times> host" where
  "deleteLocalRecord id' h t =
     (case getLocalRecords h t of
        Inl e \<Rightarrow> (Inl e, h)
      | Inr existingRecords \<Rightarrow>
          (let filteredRecords = filter (\<lambda>record. id_text record \<noteq> Some id') existingRecords
           in case h of
                NoWindow \<Rightarrow> (Inr (), h)
              | Window ls \<Rightarrow>
                  (case setItem ls filteredRecords of
                     Inl e \<Rightarrow> (Inl e, h)
                   | Inr ls' \<Rightarrow> (Inr (), Window ls'))))"

section \<open>The durable backend: the database service and its routes\<close>

text \<open>
  The table \<open>records\<close> in row order, the counter that \<open>AUTOINCREMENT\<close> keeps (the largest
  row id ever given out), and whether the database can be opened and queried: every call
  on a database that is not \<open>up\<close> raises. \<open>names\<close> is written as JSON text and parsed
  back on each read, which gives the same list of names.
\<close>

record database =
  rows :: "Record list"
  seq :: int
  up :: bool

text \<open>
  \<open>ORDER BY created_at DESC\<close>: later texts first, \<open>NULL\<close> last; rows with the same
  value stay in row order.
\<close>

fun compare_created :: "string option \<Rightarrow> string option \<Rightarrow> int" where
  "compare_created None None = 0"
| "compare_created None (Some b) = - 1"
| "compare_created (Some a) None = 1"
| "compare_created (Some a) (Some b) = compare_text a b"

definition SQLite_getAllRecords :: "database \<Rightarrow> error + Record list" where
  "SQLite_getAllRecords d =
     (if \<not> up d then Inl DatabaseError
      else Inr (sort_by (\<lambda>a b. compare_created (created_at b) (created_at a)) (rows d)))"

definition SQLite_getRecordById :: "database \<Rightarrow> int \<Rightarrow> Record option" where
  "SQLite_getRecordById d i = find (\<lambda>row. rec_id row = Some i) (rows d)"

text \<open>
  The row id of an insert into a table with \<open>INTEGER PRIMARY KEY AUTOINCREMENT\<close>: one more
  than the largest id the table holds or has ever held.
\<close>

definition lastInsertRowid :: "database \<Rightarrow> int" where
  "lastInsertRowid d =
     fold (\<lambda>row m. case rec_id row of None \<Rightarrow> m | Some i \<Rightarrow> max i m) (rows d) (seq d) + 1"

text \<open>
  \<open>createRecord\<close>: the insert names the columns \<open>names, date, type, duration\<close> only, so
  \<open>id\<close> and \<open>created_at\<close> take their defaults, whatever else the request body carries.
\<close>

definition SQLite_createRecord ::
  "database \<Rightarrow> RecordDraft \<Rightarrow> instant \<Rightarrow> (error + Record) \<times> database" where
  "SQLite_createRecord d record t =
     (if \<not> up d then (Inl DatabaseError, d)
      else
        (let i = lastInsertRowid d;
             row = \<lparr>names = names record, date = date record, rtype = rtype record,
                    duration = duration record, created_at = Some (sqltime t),
                    rec_id = Some i\<rparr>;
             d' = d\<lparr>rows := rows d @ [row], seq := i\<rparr>
         in case SQLite_getRecordById d' i of
              None \<Rightarrow> (Inl CreateFailed, d')
            | Some newRecord \<Rightarrow> (Inr newRecord, d')))"

text \<open>\<open>deleteRecord\<close> of the service: \<open>result.changes > 0\<close>.\<close>

definition SQLite_deleteRecord :: "database \<Rightarrow> int \<Rightarrow> (error + bool) \<times> database" where
  "SQLite_deleteRecord d i =
     (if \<not> up d then (Inl DatabaseError, d)
      else
        (let kept = filter (\<lambda>row. rec_id row \<noteq> Some i) (rows d);
             changes = length (rows d) - length kept
         in (Inr (changes > 0), d\<lparr>rows := kept\<rparr>)))"

text \<open>
  What \<open>await fetch(...)\<close> gives the store: the promise rejects (the transport failed),
  or it resolves to a response with a status code and a body; the body is \<open>None\<close> when
  \<open>response.json()\<close> would not give a value of the expected shape.
\<close>

datatype 'a fetched = Rejected | Resolved nat "'a option"

definition ok :: "nat \<Rightarrow> bool" where
  "ok status = (200 \<le> status \<and> status \<le> 299)"

text \<open>The handlers of \<open>src/app/api/records/route.ts\<close>: status, body and the database after.\<close>

definition GET :: "database \<Rightarrow> Record list fetched" where
  "GET d =
     (case SQLite_getAllRecords d of
        Inl e \<Rightarrow> Resolved 500 None
      | Inr records \<Rightarrow> Resolved 200 (Some records))"

definition POST :: "database \<Rightarrow> RecordDraft \<Rightarrow> instant \<Rightarrow> Record fetched \<times> database" where
  "POST d body t =
     (case SQLite_createRecord d body t of
        (Inl e, d') \<Rightarrow> (Resolved 500 None, d')
      | (Inr record, d') \<Rightarrow> (Resolved 201 (Some record), d'))"

text \<open>
  \<open>DELETE\<close>: the query parameter \<open>id\<close> may be absent. \<open>Number.parseInt\<close> gives \<open>NaN\<close>
  for a text without a number; no row has that id, so nothing changes and the answer is
  404.
\<close>

definition DELETE :: "database \<Rightarrow> string option \<Rightarrow> unit fetched \<times> database" where
  "DELETE d param =
     (case param of
        None \<Rightarrow> (Resolved 400 None, d)
      | Some i \<Rightarrow>
          if i = [] then (Resolved 400 None, d)
          else if \<not> up d then (Resolved 500 None, d)
          else
            (case parseInt i of
               None \<Rightarrow> (Resolved 404 None, d)
             | Some n \<Rightarrow>
                 (case SQLite_deleteRecord d n of
                    (Inl e, d') \<Rightarrow> (Resolved 500 None, d')
                  | (Inr success, d') \<Rightarrow>
                      if \<not> success then (Resolved 404 None, d')
                      else (Resolved 200 (Some ()), d'))))"

section \<open>The record store\<close>

text \<open>
  The id that \<open>deleteRecord\<close> is given is \<open>number | string\<close>; \<open>toString\<close> is
  \<open>id.toString()\<close>, which is also the text that the template \<open>`/api/records?id=${id}`\<close>
  puts into the request.
\<close>

datatype ident = NumId int | StrId string

fun toString :: "ident \<Rightarrow> string" where
  "toString (NumId n) = show_int n"
| "toString (StrId s) = s"

text \<open>
  The three public methods of \<open>StorageService\<close>. \<open>response\<close> is what the \<open>fetch\<close> in the
  method gives; it is looked at only when \<open>useSQLite\<close> is set. Whatever is thrown inside
  \<open>try\<close> is caught, and the method goes on with the local method.
\<close>

definition getRecords ::
  "bool \<Rightarrow> Record list fetched \<Rightarrow> host \<Rightarrow> instant \<Rightarrow> error + Record list" where
  "getRecords useSQLite response h t =
     (if useSQLite then
        (case response of
           Rejected \<Rightarrow> getLocalRecords h t
         | Resolved status body \<Rightarrow>
             if \<not> ok status then getLocalRecords h t
             else
               (case body of
                  None \<Rightarrow> getLocalRecords h t
                | Some records \<Rightarrow>
                    Inr (map (\<lambda>record.
                           record\<lparr>created_at := Some (or_else (created_at record) (iso t))\<rparr>)
                         records)))
      else getLocalRecords h t)"

definition saveRecord ::
  "bool \<Rightarrow> Record fetched \<Rightarrow> RecordDraft \<Rightarrow> host \<Rightarrow> instant \<Rightarrow> (error + Record) \<times> host" where
  "saveRecord useSQLite response record h t =
     (if useSQLite then
        (case response of
           Rejected \<Rightarrow> saveLocalRecord record h t
         | Resolved status body \<Rightarrow>
             if \<not> ok status then saveLocalRecord record h t
             else
               (case body of
                  None \<Rightarrow> saveLocalRecord record h t
                | Some savedRecord \<Rightarrow> (Inr savedRecord, h)))
      else saveLocalRecord record h t)"

definition deleteRecord ::
  "bool \<Rightarrow> unit fetched \<Rightarrow> ident \<Rightarrow> host \<Rightarrow> instant \<Rightarrow> (error + unit) \<times> host" where
  "deleteRecord useSQLite response i h t =
     (if useSQLite then
        (case response of
           Rejected \<Rightarrow> deleteLocalRecord (toString i) h t
         | Resolved status body \<Rightarrow>
             if \<not> ok status then deleteLocalRecord (toString i) h t
             else (Inr (), h))
      else deleteLocalRecord (toString i) h t)"

text \<open>
  The store at work: its mode, whether requests reach the routes, the database behind
  them and the browser. A request that does not get through leaves the database as it
  is. An id is taken to reach the route as the text \<open>toString\<close> gives.
\<close>

record world =
  useSQLite :: bool
  reachable :: bool
  db :: database
  host :: host

definition Store_list :: "world \<Rightarrow> instant \<Rightarrow> error + Record list" where
  "Store_list w t =
     getRecords (useSQLite w) (if reachable w then GET (db w) else Rejected) (host w) t"

definition Store_create :: "world \<Rightarrow> RecordDraft \<Rightarrow> instant \<Rightarrow> (error + Record) \<times> world" where
  "Store_create w record t =
     (let (response, d') =
            (if useSQLite w \<and> reachable w then POST (db w) record t else (Rejected, db w));
          (result, h') = saveRecord (useSQLite w) response record (host w) t
      in (result, w\<lparr>db := d', host := h'\<rparr>))"

definition Store_delete :: "world \<Rightarrow> ident \<Rightarrow> instant \<Rightarrow> (error + unit) \<times> world" where
  "Store_delete w i t =
     (let (response, d') =
            (if useSQLite w \<and> reachable w then DELETE (db w) (Some (toString i))
             else (Rejected, db w));
          (result, h') = deleteRecord (useSQLite w) response i (host w) t
      in (result, w\<lparr>db := d', host := h'\<rparr>))"

section \<open>The component \<open>AttendanceTracker\<close>\<close>

text \<open>
  The \<open>useState\<close> cells of the component that the claims touch. A chosen \<open>Date\<close>
  (\<open>selectedDate\<close>, \<open>filterDate\<close>) is kept as the text that
  \<open>format(_, "yyyy-MM-dd")\<close> gives for it, \<open>None\<close> being \<open>undefined\<close>. The cell
  \<open>duration\<close> is written \<open>durationInput\<close>.
\<close>

record ui =
  nameInput :: string
  selectedDate :: "string option"
  durationInput :: duration
  records :: "Record list"
  filterDate :: "string option"
  filterType :: string
  filterMonth :: string
  filterYear :: string
  searchName :: string
  statsFilterMonth :: string
  statsFilterYear :: string
  statsFilterType :: string

datatype alert = NameAndDateNeeded | NoValidName | SaveFailed

text \<open>
  \<open>addRecord(type)\<close>: the alert it shows, if any, and the component and the world
  after it. The two early returns come before \<open>storageService.saveRecord\<close> is called.
\<close>

definition addRecord :: "ui \<Rightarrow> world \<Rightarrow> rtype \<Rightarrow> instant \<Rightarrow> alert option \<times> ui \<times> world" where
  "addRecord u w type t =
     (case selectedDate u of
        None \<Rightarrow> (Some NameAndDateNeeded, u, w)
      | Some day \<Rightarrow>
          if trim (nameInput u) = [] then (Some NameAndDateNeeded, u, w)
          else
            (let names = parseNames (nameInput u)
             in if length names = 0 then (Some NoValidName, u, w)
                else
                  (case Store_create w
                          \<lparr>names = names, date = day, rtype = type,
                           duration = durationInput u, created_at = Some (iso t)\<rparr> t of
                     (Inl e, w') \<Rightarrow> (Some SaveFailed, u, w')
                   | (Inr newRecord, w') \<Rightarrow>
                       (None,
                        u\<lparr>records := newRecord # records u, nameInput := [],
                          selectedDate := None, durationInput := Full\<rparr>,
                        w'))))"

text \<open>\<open>filteredRecords\<close>: the records view.\<close>

definition matchesFilter :: "ui \<Rightarrow> Record \<Rightarrow> bool" where
  "matchesFilter u record =
     (let matchesDate = (case filterDate u of None \<Rightarrow> True | Some day \<Rightarrow> date record = day);
          matchesType = (filterType u = ''all'' \<or> type_text (rtype record) = filterType u);
          matchesMonth = (filterMonth u = [] \<or> startsWith (date record) (filterMonth u));
          matchesYear = (filterYear u = [] \<or> startsWith (date record) (filterYear u));
          matchesName =
            (searchName u = [] \<or>
             list_ex (\<lambda>name. includes_str (toLowerCase name) (toLowerCase (searchName u)))
               (names record))
      in matchesDate \<and> matchesType \<and> matchesMonth \<and> matchesYear \<and> matchesName)"

definition filteredRecords :: "ui \<Rightarrow> Record list" where
  "filteredRecords u = filter (matchesFilter u) (records u)"

text \<open>
  \<open>statistics\<close>. The \<open>Map\<close> from name to entry is a list of pairs in insertion order;
  \<open>AList.update\<close> replaces the entry of a key in place and puts a new key at the end,
  as \<open>Map.prototype.set\<close> does. The day totals are sums of 1 and 0.5, which are exact
  in JavaScript's numbers, so they are modelled as reals. \<open>localeCompare\<close> depends on the
  locale of the browser and is a parameter.
\<close>

record Statistics =
  name :: string
  overtimeCount :: nat
  leaveCount :: nat
  overtimeDays :: real
  leaveDays :: real

definition matchesStats :: "ui \<Rightarrow> Record \<Rightarrow> bool" where
  "matchesStats u record =
     (let matchesType =
            (statsFilterType u = ''all'' \<or> type_text (rtype record) = statsFilterType u);
          matchesMonth =
            (statsFilterMonth u = ''all'' \<or> startsWith (date record) (statsFilterMonth u));
          matchesYear =
            (statsFilterYear u = ''all'' \<or> startsWith (date record) (statsFilterYear u))
      in matchesType \<and> matchesMonth \<and> matchesYear)"

definition dayValue :: "Record \<Rightarrow> real" where
  "dayValue record = (if duration record = Full then 1 else 1 / 2)"

text \<open>
  The body of the inner \<open>forEach\<close>. The entry is there when it is read (\<open>get(name)!\<close>),
  since it has just been set if it was missing.
\<close>

definition count_name :: "Record \<Rightarrow> string \<Rightarrow> (string \<times> Statistics) list \<Rightarrow> (string \<times> Statistics) list" where
  "count_name record n statsMap =
     (let statsMap1 =
            (if map_of statsMap n = None
             then AList.update n
                    \<lparr>name = n, overtimeCount = 0, leaveCount = 0, overtimeDays = 0, leaveDays = 0\<rparr>
                    statsMap
             else statsMap)
      in case map_of statsMap1 n of
           None \<Rightarrow> statsMap1
         | Some stats \<Rightarrow>
             if rtype record = Overtime
             then AList.update n
                    (stats\<lparr>overtimeCount := overtimeCount stats + 1,
                           overtimeDays := overtimeDays stats + dayValue record\<rparr>)
                    statsMap1
             else AList.update n
                    (stats\<lparr>leaveCount := leaveCount stats + 1,
                           leaveDays := leaveDays stats + dayValue record\<rparr>)
                    statsMap1)"

definition statistics :: "(string \<Rightarrow> string \<Rightarrow> int) \<Rightarrow> ui \<Rightarrow> Statistics list" where
  "statistics localeCompare u =
     (let statsFilteredRecords = filter (matchesStats u) (records u);
          statsMap =
            fold (\<lambda>record m. fold (count_name record) (names record) m) statsFilteredRecords []
      in sort_by (\<lambda>a b. localeCompare (name a) (name b)) (map snd statsMap))"

text \<open>
  The aggregation as the specification words it, to compare with \<open>statistics\<close>. It is
  written from the specification's sentences and uses none of the definitions of the
  component.

  A record passes the statistics filter when each of the three choices is either
  \<open>all\<close> or met by the record: the type chosen is the record's type, the year chosen
  is a prefix of the record's date, the month chosen is a prefix of the record's date.
  The day-equivalent of a duration is 1 for a full day and 0.5 for a morning or an
  afternoon.
\<close>

definition passes :: "ui \<Rightarrow> Record \<Rightarrow> bool" where
  "passes u r =
     ((statsFilterType u = ''all'' \<or>
       (statsFilterType u = ''overtime'' \<and> rtype r = Overtime) \<or>
       (statsFilterType u = ''leave'' \<and> rtype r = Leave)) \<and>
      (statsFilterYear u = ''all'' \<or>
       take (length (statsFilterYear u)) (date r) = statsFilterYear u) \<and>
      (statsFilterMonth u = ''all'' \<or>
       take (length (statsFilterMonth u)) (date r) = statsFilterMonth u))"

fun day_equivalent :: "duration \<Rightarrow> real" where
  "day_equivalent Full = 1"
| "day_equivalent Morning = 1 / 2"
| "day_equivalent Afternoon = 1 / 2"

text \<open>
  Take every record that passes the filter with every name in its names; a name's entry
  counts the records it is named in, by type, one per mention, and adds up their
  day-equivalents; the entries come in the order in which the names are first met and are
  then sorted by name.
\<close>

definition mentions :: "Record list \<Rightarrow> (Record \<times> string) list" where
  "mentions rs = concat (map (\<lambda>r. map (Pair r) (names r)) rs)"

definition first_met :: "string list \<Rightarrow> string list" where
  "first_met ns = rev (remdups (rev ns))"

definition entry_of :: "(Record \<times> string) list \<Rightarrow> string \<Rightarrow> Statistics" where
  "entry_of ps n =
     (let rs = map fst (filter (\<lambda>p. snd p = n) ps);
          overtimes = filter (\<lambda>r. rtype r = Overtime) rs;
          leaves = filter (\<lambda>r. rtype r = Leave) rs
      in \<lparr>name = n, overtimeCount = length overtimes, leaveCount = length leaves,
          overtimeDays = sum_list (map (\<lambda>r. day_equivalent (duration r)) overtimes),
          leaveDays = sum_list (map (\<lambda>r. day_equivalent (duration r)) leaves)\<rparr>)"

definition reference_statistics :: "(string \<Rightarrow> string \<Rightarrow> int) \<Rightarrow> ui \<Rightarrow> Statistics list" where
  "reference_statistics localeCompare u =
     (let ps = mentions (filter (passes u) (records u))
      in sort_by (\<lambda>a b. localeCompare (name a) (name b))
           (map (entry_of ps) (first_met (map snd ps))))"

text \<open>
  What \<open>sort\<close> asks of a comparison for its result to be defined: swapping the arguments
  swaps the sign, and "not after" is transitive.
\<close>

definition consistent :: "(string \<Rightarrow> string \<Rightarrow> int) \<Rightarrow> bool" where
  "consistent cmp =
     ((\<forall>a b. (cmp a b < 0) = (cmp b a > 0)) \<and>
      (\<forall>a b c. cmp a b \<le> 0 \<longrightarrow> cmp b c \<le> 0 \<longrightarrow> cmp a c \<le> 0))"

section \<open>Notions used in the statements\<close>

text \<open>The stored collection: the array under the key, empty when there is none.\<close>

definition collection :: "host \<Rightarrow> StoredRecord list" where
  "collection h =
     (case h of
        NoWindow \<Rightarrow> []
      | Window ls \<Rightarrow> (case item ls of Saved xs \<Rightarrow> xs | Missing \<Rightarrow> [] | Garbled \<Rightarrow> []))"

text \<open>
  A stored record stays when the id text \<open>s\<close> is deleted: it has no id, or the text of
  its id is not \<open>s\<close>.
\<close>

definition keeps :: "string \<Rightarrow> StoredRecord \<Rightarrow> bool" where
  "keeps s r = (map_option show_int (s_id r) \<noteq> Some s)"

definition without_id :: "host \<Rightarrow> StoredRecord list" where
  "without_id h = filter (\<lambda>r. s_id r = None) (collection h)"

text \<open>
  What a stored record looks like once it has been read at \<open>t\<close> and written back: a
  missing \<open>duration\<close> and a missing or empty \<open>created_at\<close> are filled in.
\<close>

definition rewritten :: "instant \<Rightarrow> StoredRecord \<Rightarrow> StoredRecord" where
  "rewritten t r = stringify (revive t r)"

definition filled :: "StoredRecord \<Rightarrow> bool" where
  "filled r =
     (s_duration r \<noteq> None \<and> s_created_at r \<noteq> None \<and> s_created_at r \<noteq> Some [])"

text \<open>
  The durable attempt of a method fails when the request is rejected or the status is
  not one of 200 to 299; for \<open>getRecords\<close> and \<open>saveRecord\<close>, which read the body, also
  when the body cannot be read. \<open>deleteRecord\<close> does not read the body.
\<close>

definition refused :: "'a fetched \<Rightarrow> bool" where
  "refused response =
     (case response of Rejected \<Rightarrow> True | Resolved status body \<Rightarrow> \<not> ok status)"

definition failed :: "'a fetched \<Rightarrow> bool" where
  "failed response =
     (case response of Rejected \<Rightarrow> True | Resolved status body \<Rightarrow> \<not> ok status \<or> body = None)"


text \<open>
  The entry of a name on first encounter, what one mention by a record adds to an entry,
  and the \<open>Map\<close> after the mentions \<open>ps\<close> have been counted one after the other.
\<close>

definition zero_entry :: "string \<Rightarrow> Statistics" where
  "zero_entry n = \<lparr>name = n, overtimeCount = 0, leaveCount = 0, overtimeDays = 0, leaveDays = 0\<rparr>"

definition bump :: "Record \<Rightarrow> Statistics \<Rightarrow> Statistics" where
  "bump r stats =
     (if rtype r = Overtime
      then stats\<lparr>overtimeCount := overtimeCount stats + 1,
                 overtimeDays := overtimeDays stats + dayValue r\<rparr>
      else stats\<lparr>leaveCount := leaveCount stats + 1,
                 leaveDays := leaveDays stats + dayValue r\<rparr>)"

definition tally :: "(Record \<times> string) list \<Rightarrow> (string \<times> Statistics) list" where
  "tally ps = fold (\<lambda>p. count_name (fst p) (snd p)) ps []"

section \<open>Inputs of the examples\<close>

text \<open>
  Two instants one millisecond apart, a browser whose storage holds a given array and
  takes every value, a record as an earlier version stored it (no \<open>duration\<close>, no
  \<open>created_at\<close>), two complete stored records (one without an id) and a draft.
\<close>

definition t0 :: instant where
  "t0 = \<lparr>ms = 1700000000000, iso = ''2023-11-14T22:13:20.000Z'', sqltime = ''2023-11-14 22:13:20''\<rparr>"

definition t1 :: instant where
  "t1 = \<lparr>ms = 1700000000001, iso = ''2023-11-14T22:13:20.001Z'', sqltime = ''2023-11-14 22:13:20''\<rparr>"

definition browser :: "StoredRecord list \<Rightarrow> host" where
  "browser xs = Window \<lparr>item = Saved xs, accepts = (\<lambda>v. True)\<rparr>"

definition legacy :: StoredRecord where
  "legacy = \<lparr>s_id = Some 1, s_names = [''Ann''], s_date = ''2023-05-01'', s_type = Leave,
             s_duration = None, s_created_at = None\<rparr>"

definition stored5 :: StoredRecord where
  "stored5 = \<lparr>s_id = Some 5, s_names = [''Ann'', ''Li''], s_date = ''2024-01-05'',
              s_type = Overtime, s_duration = Some Full,
              s_created_at = Some ''2024-01-05T09:00:00.000Z''\<rparr>"

definition anonymous :: StoredRecord where
  "anonymous = \<lparr>s_id = None, s_names = [''Bo''], s_date = ''2024-02-10'', s_type = Leave,
                s_duration = Some Morning, s_created_at = Some ''2024-02-10T09:00:00.000Z''\<rparr>"

definition draft0 :: RecordDraft where
  "draft0 = \<lparr>names = [''Ann''], date = ''2024-01-05'', rtype = Overtime, duration = Full,
             created_at = None\<rparr>"

text \<open>
  The component with the given records loaded and no filter chosen, the two records of
  the specification's example for the statistics, and two more: a leave of an afternoon
  and a leave of the year before. Then the component with the four records loaded and
  the statistics filter set to leave in 2024, and to the month of January 2024.
\<close>

definition ui0 :: "Record list \<Rightarrow> ui" where
  "ui0 rs =
     \<lparr>nameInput = [], selectedDate = None, durationInput = Full, records = rs,
      filterDate = None, filterType = ''all'', filterMonth = [], filterYear = [],
      searchName = [], statsFilterMonth = ''all'', statsFilterYear = ''all'',
      statsFilterType = ''all''\<rparr>"

definition rec_A :: Record where
  "rec_A = \<lparr>names = [''A''], date = ''2024-01-05'', rtype = Overtime, duration = Full,
            created_at = Some ''2024-01-05T09:00:00.000Z'', rec_id = Some 1\<rparr>"

definition rec_AB :: Record where
  "rec_AB = \<lparr>names = [''A'', ''B''], date = ''2024-02-10'', rtype = Leave, duration = Morning,
             created_at = Some ''2024-02-10T09:00:00.000Z'', rec_id = Some 2\<rparr>"

definition rec_BC :: Record where
  "rec_BC = \<lparr>names = [''C'', ''B''], date = ''2024-02-20'', rtype = Leave, duration = Afternoon,
             created_at = Some ''2024-02-20T09:00:00.000Z'', rec_id = Some 3\<rparr>"

definition rec_old :: Record where
  "rec_old = \<lparr>names = [''C''], date = ''2023-02-03'', rtype = Leave, duration = Full,
              created_at = Some ''2023-02-03T09:00:00.000Z'', rec_id = Some 4\<rparr>"

definition four_records :: "Record list" where
  "four_records = [rec_BC, rec_A, rec_AB, rec_old]"

definition leave_2024 :: ui where
  "leave_2024 = (ui0 four_records)\<lparr>statsFilterYear := ''2024'', statsFilterType := ''leave''\<rparr>"

definition january :: ui where
  "january = (ui0 four_records)\<lparr>statsFilterMonth := ''2024-01''\<rparr>"

section \<open>Name parsing\<close>

lemma isSpace_length: "isSpace u \<Longrightarrow> 0 < length u \<and> length u \<le> 3"
  by (auto simp: isSpace_def white_space_def)

lemma not_isSpace_Nil: "\<not> isSpace []"
  using isSpace_length [of "[]"] by auto

lemma space_at_cases:
  "space_at s = 0 \<and> \<not> isSpace (take 1 s) \<and> \<not> isSpace (take 2 s) \<and> \<not> isSpace (take 3 s)
   \<or> 0 < space_at s \<and> space_at s \<le> 3 \<and> space_at s \<le> length s \<and> isSpace (take (space_at s) s)
       \<and> (\<forall>j. 0 < j \<and> j < space_at s \<longrightarrow> \<not> isSpace (take j s))"
proof -
  have short: "length s < k \<Longrightarrow> take k s = take (length s) s" for k
    by simp
  consider (one) "isSpace (take 1 s)"
    | (two) "\<not> isSpace (take 1 s)" "isSpace (take 2 s)"
    | (three) "\<not> isSpace (take 1 s)" "\<not> isSpace (take 2 s)" "isSpace (take 3 s)"
    | (none) "\<not> isSpace (take 1 s)" "\<not> isSpace (take 2 s)" "\<not> isSpace (take 3 s)"
    by blast
  then show ?thesis
  proof cases
    case one
    then have "s \<noteq> []" using not_isSpace_Nil by auto
    with one show ?thesis by (cases s) (simp_all add: space_at_def)
  next
    case two
    have "2 \<le> length s"
    proof (rule ccontr)
      assume "\<not> 2 \<le> length s"
      then have "length s = 0 \<or> length s = 1" by arith
      then show False using two not_isSpace_Nil by (cases s) auto
    qed
    moreover have "\<not> isSpace (take j s)" if "0 < j" "j < 2" for j
    proof -
      from that have "j = 1" by arith
      with two show ?thesis by simp
    qed
    ultimately show ?thesis using two by (simp add: space_at_def)
  next
    case three
    have "3 \<le> length s"
    proof (rule ccontr)
      assume "\<not> 3 \<le> length s"
      then have "length s = 0 \<or> length s = 1 \<or> length s = 2" by arith
      then show False
      proof (elim disjE)
        assume "length s = 0"
        then show False using three not_isSpace_Nil by simp
      next
        assume "length s = 1"
        then have "take 3 s = take 1 s" by simp
        with three show False by simp
      next
        assume "length s = 2"
        then have "take 3 s = take 2 s" by simp
        with three show False by simp
      qed
    qed
    moreover have "\<not> isSpace (take j s)" if "0 < j" "j < 3" for j
    proof -
      from that have "j = 1 \<or> j = 2" by arith
      with three show ?thesis by auto
    qed
    ultimately show ?thesis using three by (simp add: space_at_def)
  next
    case none
    then show ?thesis by (simp add: space_at_def)
  qed
qed

lemma space_at_le: "space_at s \<le> length s"
  using space_at_cases [of s] by auto

lemma space_at_isSpace: "0 < space_at s \<Longrightarrow> isSpace (take (space_at s) s)"
  using space_at_cases [of s] by auto

lemma space_at_append:
  assumes "0 < space_at p"
  shows "space_at (p @ t) = space_at p"
proof -
  let ?n = "space_at p"
  from space_at_cases [of p] assms
  have n: "?n \<le> 3" "?n \<le> length p" "isSpace (take ?n p)"
    and before: "\<And>j. 0 < j \<Longrightarrow> j < ?n \<Longrightarrow> \<not> isSpace (take j p)"
    by auto
  have same: "take j (p @ t) = take j p" if "j \<le> ?n" for j
    using that n(2) by simp
  from assms n(1) have "?n = 1 \<or> ?n = 2 \<or> ?n = 3" by arith
  then show ?thesis
  proof (elim disjE)
    assume one: "?n = 1"
    have s1: "take 1 (p @ t) = take 1 p" by (rule same) (simp add: one)
    have "isSpace (take 1 p)" using n(3) one by simp
    then have "space_at (p @ t) = 1" unfolding space_at_def s1 by simp
    with one show ?thesis by simp
  next
    assume two: "?n = 2"
    have s1: "take 1 (p @ t) = take 1 p" by (rule same) (simp add: two)
    have s2: "take 2 (p @ t) = take 2 p" by (rule same) (simp add: two)
    have "isSpace (take 2 p)" using n(3) two by simp
    moreover have "\<not> isSpace (take 1 p)" by (rule before) (simp_all add: two)
    ultimately have "space_at (p @ t) = 2" unfolding space_at_def s1 s2 by simp
    with two show ?thesis by simp
  next
    assume three: "?n = 3"
    have s1: "take 1 (p @ t) = take 1 p" by (rule same) (simp add: three)
    have s2: "take 2 (p @ t) = take 2 p" by (rule same) (simp add: three)
    have s3: "take 3 (p @ t) = take 3 p" by (rule same) (simp add: three)
    have "isSpace (take 3 p)" using n(3) three by simp
    moreover have "\<not> isSpace (take 1 p)" by (rule before) (simp_all add: three)
    moreover have "\<not> isSpace (take 2 p)" by (rule before) (simp_all add: three)
    ultimately have "space_at (p @ t) = 3" unfolding space_at_def s1 s2 s3 by simp
    with three show ?thesis by simp
  qed
qed

lemma space_at_prefix: "space_at (p @ t) = 0 \<Longrightarrow> space_at p = 0"
  using space_at_append [of p t] by auto

lemma symbols_Nil [simp]: "symbols [] = []"
  by (subst symbols.simps) simp

lemma symbols_step:
  "s \<noteq> [] \<Longrightarrow>
     symbols s = take (max 1 (space_at s)) s # symbols (drop (max 1 (space_at s)) s)"
  by (subst symbols.simps) (simp add: Let_def)

lemma concat_symbols: "concat (symbols s) = s"
proof (induction s rule: symbols.induct)
  case (1 s)
  show ?case
  proof (cases "s = []")
    case True
    then show ?thesis by simp
  next
    case False
    from "1.IH" [OF False refl] False show ?thesis
      by (simp add: symbols_step)
  qed
qed

lemma symbols_not_Nil: "u \<in> set (symbols s) \<Longrightarrow> u \<noteq> []"
proof (induction s rule: symbols.induct)
  case (1 s)
  show ?case
  proof (cases "s = []")
    case True
    with "1.prems" show ?thesis by simp
  next
    case False
    then have "take (max 1 (space_at s)) s \<noteq> []" by simp
    with "1.IH" [OF False refl] "1.prems" False show ?thesis
      by (auto simp: symbols_step)
  qed
qed

lemma symbols_plain:
  assumes "space_at (c # cs) = 0"
  shows "symbols (c # cs) = [c] # symbols cs"
  using assms by (simp add: symbols_step)

lemma lexed_tail:
  assumes "symbols (concat (u # us)) = u # us"
  shows "symbols (concat us) = us"
proof -
  define s where "s = u @ concat us"
  define k where "k = max 1 (space_at s)"
  have sym: "symbols s = u # us" using assms by (simp add: s_def)
  have ne: "s \<noteq> []"
  proof
    assume "s = []"
    with sym show False by simp
  qed
  from sym symbols_step [OF ne] have u: "u = take k s" and us: "us = symbols (drop k s)"
    by (simp_all add: k_def)
  have "k \<le> length s" using ne space_at_le [of s] by (cases s) (auto simp: k_def)
  then have "length u = k" unfolding u by simp
  then have "drop k s = concat us" by (simp add: s_def)
  with us show ?thesis by simp
qed

lemma lexed_head_plain:
  assumes "symbols (concat (u # us)) = u # us" and "\<not> isSpace u"
  shows "\<exists>c. u = [c] \<and> space_at (c # concat us) = 0"
proof -
  define s where "s = u @ concat us"
  have sym: "symbols s = u # us" using assms by (simp add: s_def)
  have ne: "s \<noteq> []"
  proof
    assume "s = []"
    with sym show False by simp
  qed
  from sym symbols_step [OF ne] have u: "u = take (max 1 (space_at s)) s" by simp
  have z: "space_at s = 0"
  proof (rule ccontr)
    assume "space_at s \<noteq> 0"
    then have pos: "0 < space_at s" by simp
    then have "isSpace (take (space_at s) s)" by (rule space_at_isSpace)
    moreover from pos have "max 1 (space_at s) = space_at s" by simp
    ultimately show False using u assms(2) by simp
  qed
  with u have "u = take 1 s" by simp
  with ne obtain c where c: "u = [c]" by (cases s) auto
  with z show ?thesis by (auto simp: s_def)
qed

lemma lexed_takeWhile:
  "symbols (concat us) = us \<Longrightarrow>
     symbols (concat (takeWhile (\<lambda>c. \<not> isSpace c) us)) = takeWhile (\<lambda>c. \<not> isSpace c) us"
proof (induction us)
  case Nil
  show ?case by simp
next
  case (Cons u us)
  show ?case
  proof (cases "isSpace u")
    case True
    then show ?thesis by simp
  next
    case False
    from lexed_head_plain [OF Cons.prems False] obtain c
      where c: "u = [c]" and z: "space_at (c # concat us) = 0" by blast
    let ?tw = "takeWhile (\<lambda>c. \<not> isSpace c) us"
    have tail: "symbols (concat us) = us" using Cons.prems by (rule lexed_tail)
    then have ih: "symbols (concat ?tw) = ?tw" by (rule Cons.IH)
    have "concat us = concat ?tw @ concat (dropWhile (\<lambda>c. \<not> isSpace c) us)"
      by (metis concat_append takeWhile_dropWhile_id)
    with z have "space_at ((c # concat ?tw) @ concat (dropWhile (\<lambda>c. \<not> isSpace c) us)) = 0"
      by simp
    then have "space_at (c # concat ?tw) = 0" by (rule space_at_prefix)
    then have "symbols (c # concat ?tw) = [c] # symbols (concat ?tw)" by (rule symbols_plain)
    with ih False c show ?thesis by simp
  qed
qed

lemma lexed_dropWhile:
  "symbols (concat us) = us \<Longrightarrow> symbols (concat (dropWhile Q us)) = dropWhile Q us"
proof (induction us)
  case Nil
  show ?case by simp
next
  case (Cons u us)
  have "symbols (concat us) = us" using Cons.prems by (rule lexed_tail)
  with Cons show ?case by simp
qed

lemma lexed_not_Nil: "symbols (concat us) = us \<Longrightarrow> u \<in> set us \<Longrightarrow> u \<noteq> []"
  using symbols_not_Nil [of u "concat us"] by simp

lemma split_ws_no_space: "p \<in> set (split_ws s) \<Longrightarrow> c \<in> set p \<Longrightarrow> \<not> isSpace c"
proof (induction s rule: split_ws.induct)
  case (1 s)
  let ?rest = "dropWhile (\<lambda>c. \<not> isSpace c) s"
  let ?piece = "takeWhile (\<lambda>c. \<not> isSpace c) s"
  have piece: "\<not> isSpace c" if "c \<in> set ?piece" for c
    using that by (auto dest: set_takeWhileD)
  show ?case
  proof (cases "?rest = []")
    case True
    have "split_ws s = [?piece]"
      by (subst split_ws.simps) (simp add: Let_def True del: dropWhile_eq_Nil_conv)
    with "1.prems" piece show ?thesis by simp
  next
    case False
    have "split_ws s = ?piece # split_ws (dropWhile isSpace ?rest)"
      using False by (subst split_ws.simps) (simp add: Let_def del: dropWhile_eq_Nil_conv)
    with "1.prems" have "p = ?piece \<or> p \<in> set (split_ws (dropWhile isSpace ?rest))"
      by simp
    then show ?thesis
    proof
      assume "p = ?piece"
      with "1.prems" piece show ?thesis by simp
    next
      assume "p \<in> set (split_ws (dropWhile isSpace ?rest))"
      with "1.IH" [OF refl refl False] "1.prems" show ?thesis by blast
    qed
  qed
qed

lemma split_ws_lexed:
  "p \<in> set (split_ws s) \<Longrightarrow> symbols (concat s) = s \<Longrightarrow> symbols (concat p) = p"
proof (induction s rule: split_ws.induct)
  case (1 s)
  let ?rest = "dropWhile (\<lambda>c. \<not> isSpace c) s"
  let ?piece = "takeWhile (\<lambda>c. \<not> isSpace c) s"
  have piece: "symbols (concat ?piece) = ?piece"
    using "1.prems"(2) by (rule lexed_takeWhile)
  show ?case
  proof (cases "?rest = []")
    case True
    have "split_ws s = [?piece]"
      by (subst split_ws.simps) (simp add: Let_def True del: dropWhile_eq_Nil_conv)
    with "1.prems" piece show ?thesis by simp
  next
    case False
    have "split_ws s = ?piece # split_ws (dropWhile isSpace ?rest)"
      using False by (subst split_ws.simps) (simp add: Let_def del: dropWhile_eq_Nil_conv)
    with "1.prems" have "p = ?piece \<or> p \<in> set (split_ws (dropWhile isSpace ?rest))"
      by simp
    then show ?thesis
    proof
      assume "p = ?piece"
      with piece show ?thesis by simp
    next
      assume p: "p \<in> set (split_ws (dropWhile isSpace ?rest))"
      have "symbols (concat ?rest) = ?rest"
        using "1.prems"(2) by (rule lexed_dropWhile)
      then have "symbols (concat (dropWhile isSpace ?rest)) = dropWhile isSpace ?rest"
        by (rule lexed_dropWhile)
      with "1.IH" [OF refl refl False p] show ?thesis by blast
    qed
  qed
qed

lemma dropWhile_none: "\<forall>c\<in>set p. \<not> P c \<Longrightarrow> dropWhile P p = p"
  by (cases p) auto

lemma trim_plain:
  assumes "symbols (concat p) = p" and "\<forall>c\<in>set p. \<not> isSpace c"
  shows "trim (concat p) = concat p"
  using assms by (simp add: trim_def dropWhile_none)

lemma dropWhile_all_iff: "(\<forall>x\<in>set (dropWhile P s). P x) \<longleftrightarrow> (\<forall>x\<in>set s. P x)"
proof
  assume a: "\<forall>x\<in>set (dropWhile P s). P x"
  have "dropWhile P s = []"
  proof (rule ccontr)
    assume ne: "dropWhile P s \<noteq> []"
    then have "\<not> P (hd (dropWhile P s))" by (rule hd_dropWhile)
    moreover have "hd (dropWhile P s) \<in> set (dropWhile P s)" using ne by simp
    ultimately show False using a by blast
  qed
  then show "\<forall>x\<in>set s. P x" by (simp add: dropWhile_eq_Nil_conv)
next
  assume "\<forall>x\<in>set s. P x"
  then show "\<forall>x\<in>set (dropWhile P s). P x" by (auto dest: set_dropWhileD)
qed

lemma concat_Nil_lexed: "\<forall>u\<in>set us. u \<noteq> [] \<Longrightarrow> concat us = [] \<longleftrightarrow> us = []"
  by (cases us) auto

lemma trim_Nil_iff: "trim s = [] \<longleftrightarrow> (\<forall>u\<in>set (symbols s). isSpace u)"
proof -
  let ?inner = "rev (dropWhile isSpace (rev (dropWhile isSpace (symbols s))))"
  have "\<forall>u\<in>set ?inner. u \<noteq> []"
  proof
    fix u assume "u \<in> set ?inner"
    then have "u \<in> set (dropWhile isSpace (symbols s))"
      by (auto dest: set_dropWhileD)
    then have "u \<in> set (symbols s)" by (rule set_dropWhileD)
    then show "u \<noteq> []" by (rule symbols_not_Nil)
  qed
  then have "trim s = [] \<longleftrightarrow> ?inner = []"
    unfolding trim_def by (rule concat_Nil_lexed)
  also have "\<dots> \<longleftrightarrow> (\<forall>u\<in>set (symbols s). isSpace u)"
    by (simp add: dropWhile_eq_Nil_conv dropWhile_all_iff)
  finally show ?thesis .
qed

lemma name_tokens_skip: "name_tokens (dropWhile isSpace s) = name_tokens s"
  by (simp add: name_tokens.simps [of s] name_tokens.simps [of "dropWhile isSpace s"] dropWhile_idem)

lemma filter_split_ws: "filter (\<lambda>p. p \<noteq> []) (split_ws s) = name_tokens s"
proof (induction s rule: split_ws.induct)
  case (1 s)
  let ?rest = "dropWhile (\<lambda>c. \<not> isSpace c) s"
  let ?piece = "takeWhile (\<lambda>c. \<not> isSpace c) s"
  show ?case
  proof (cases s)
    case Nil
    then show ?thesis by (simp add: split_ws.simps [of "[]"] name_tokens.simps [of "[]"])
  next
    case (Cons c cs)
    show ?thesis
    proof (cases "isSpace c")
      case True
      then have r: "?rest = s" and p: "?piece = []" using Cons by simp_all
      have "split_ws s = [] # split_ws (dropWhile isSpace s)"
        using Cons True by (subst split_ws.simps) (simp add: Let_def)
      then have "filter (\<lambda>p. p \<noteq> []) (split_ws s) = filter (\<lambda>p. p \<noteq> []) (split_ws (dropWhile isSpace s))"
        by simp
      also have "\<dots> = name_tokens (dropWhile isSpace s)"
        using "1.IH" [OF refl refl] r Cons by simp
      finally show ?thesis by (simp add: name_tokens_skip)
    next
      case False
      then have d: "dropWhile isSpace s = s" and pne: "?piece \<noteq> []" using Cons by simp_all
      have nt: "name_tokens s = ?piece # name_tokens ?rest"
        using d Cons by (subst name_tokens.simps) simp
      show ?thesis
      proof (cases "?rest = []")
        case True
        have "split_ws s = [?piece]"
          by (subst split_ws.simps) (simp add: Let_def True del: dropWhile_eq_Nil_conv)
        moreover have "name_tokens ?rest = []"
          unfolding True by (simp add: name_tokens.simps [of "[]"])
        ultimately show ?thesis using pne nt by simp
      next
        case False
        have "split_ws s = ?piece # split_ws (dropWhile isSpace ?rest)"
          using False by (subst split_ws.simps) (simp add: Let_def del: dropWhile_eq_Nil_conv)
        then have "filter (\<lambda>p. p \<noteq> []) (split_ws s)
            = ?piece # filter (\<lambda>p. p \<noteq> []) (split_ws (dropWhile isSpace ?rest))"
          using pne by simp
        also have "\<dots> = ?piece # name_tokens (dropWhile isSpace ?rest)"
          using "1.IH" [OF refl refl False] by simp
        finally show ?thesis by (simp add: nt name_tokens_skip)
      qed
    qed
  qed
qed

lemma parseNames_pieces:
  "parseNames s = map concat (filter (\<lambda>p. p \<noteq> []) (split_ws (symbols s)))"
proof -
  let ?ps = "split_ws (symbols s)"
  have lexed: "symbols (concat p) = p" if "p \<in> set ?ps" for p
    using that by (rule split_ws_lexed) (simp add: concat_symbols)
  have plain: "\<forall>c\<in>set p. \<not> isSpace c" if "p \<in> set ?ps" for p
    using that split_ws_no_space by blast
  have same: "map trim (map concat ?ps) = map concat ?ps"
    by (rule map_idI) (auto simp: trim_plain lexed plain)
  have "parseNames s = filter (\<lambda>name. name \<noteq> []) (map concat ?ps)"
    unfolding parseNames_def split_text_def by (simp only: same length_greater_0_conv)
  moreover have "filter (\<lambda>name. name \<noteq> []) (map concat ?ps)
      = map concat (filter (\<lambda>p. p \<noteq> []) ?ps)"
  proof -
    have "concat p \<noteq> [] \<longleftrightarrow> p \<noteq> []" if "p \<in> set ?ps" for p
    proof -
      have "\<forall>u\<in>set p. u \<noteq> []" using lexed [OF that] lexed_not_Nil by blast
      then show ?thesis using concat_Nil_lexed by blast
    qed
    then show ?thesis by (simp add: filter_map o_def cong: filter_cong)
  qed
  ultimately show ?thesis by (rule trans)
qed

lemma parseNames_tokens: "parseNames s = map concat (name_tokens (symbols s))"
  by (simp add: parseNames_pieces filter_split_ws)

lemma parseNames_Nil_iff: "parseNames s = [] \<longleftrightarrow> (\<forall>u\<in>set (symbols s). isSpace u)"
  by (simp add: parseNames_tokens name_tokens.simps [of "symbols s"] dropWhile_eq_Nil_conv Let_def)

lemma parseNames_member:
  assumes "n \<in> set (parseNames s)"
  shows "n \<noteq> [] \<and> (\<forall>u\<in>set (symbols n). \<not> isSpace u) \<and> trim n = n"
proof -
  from assms obtain p where p: "p \<in> set (split_ws (symbols s))" "p \<noteq> []" "n = concat p"
    by (auto simp: parseNames_pieces)
  have lexed: "symbols (concat p) = p"
    using p(1) by (rule split_ws_lexed) (simp add: concat_symbols)
  have plain: "\<forall>c\<in>set p. \<not> isSpace c"
    using p(1) split_ws_no_space by blast
  have "\<forall>u\<in>set p. u \<noteq> []" using lexed lexed_not_Nil by blast
  with p(2) have "concat p \<noteq> []" using concat_Nil_lexed by blast
  with lexed plain p(3) show ?thesis by (simp add: trim_plain)
qed

lemma white_space_starts_a_character:
  "list_all (\<lambda>u. (of_char (hd u) :: nat) < 128 \<or> 192 \<le> (of_char (hd u) :: nat)) white_space"
  by (simp add: white_space_def)

lemma length_white_space: "length white_space = 25 \<and> distinct white_space"
  by (simp add: white_space_def)

lemma blank_rejected:
  assumes "\<forall>s\<in>set (symbols input). isSpace s"
  shows "\<exists>a. addRecord (u\<lparr>nameInput := input\<rparr>) w type t = (Some a, u\<lparr>nameInput := input\<rparr>, w)"
proof -
  from assms have "trim input = []" by (simp only: trim_Nil_iff)
  then show ?thesis by (simp add: addRecord_def split: option.split)
qed

text \<open>
  Claim C8. For every input, \<open>parseNames\<close> splits on runs of white space, line feeds
  and the white space outside ASCII among them: its result is the list of the maximal runs
  of other symbols, in order (\<open>name_tokens\<close>); every name in it is non-empty, has no
  white space in it and is its own trim. \<open>"Alice  Bob\\nCarol"\<close> gives Alice, Bob,
  Carol; an ideographic space (U+3000) between A and B separates them, and so does each
  of the 25 white space characters; a zero width space (U+200B) or an ideographic comma
  (U+3001) does not. The inputs that give no name are exactly the empty one and those of
  white space alone, they are the inputs whose trim is empty, and on such an input
  \<open>addRecord\<close> stops with an alert and leaves the component and the world (database and
  local storage) as they were, so that no create reaches a backend.
\<close>

theorem parseNames_splits_on_white_space:
  "parseNames input = map concat (name_tokens (symbols input)) \<and>
   (\<forall>n\<in>set (parseNames input).
      n \<noteq> [] \<and> (\<forall>s\<in>set (symbols n). \<not> isSpace s) \<and> trim n = n) \<and>
   parseNames (''Alice  Bob'' @ [CHR 0x0A] @ ''Carol'') = [''Alice'', ''Bob'', ''Carol''] \<and>
   parseNames (''A'' @ [CHR 0xE3, CHR 0x80, CHR 0x80] @ ''B'') = [''A'', ''B''] \<and>
   parseNames (concat (map (\<lambda>s. ''x'' @ s) white_space)) = replicate 25 ''x'' \<and>
   parseNames (''A'' @ [CHR 0xE2, CHR 0x80, CHR 0x8B] @ ''B'')
     = [''A'' @ [CHR 0xE2, CHR 0x80, CHR 0x8B] @ ''B''] \<and>
   parseNames (''A'' @ [CHR 0xE3, CHR 0x80, CHR 0x81] @ ''B'')
     = [''A'' @ [CHR 0xE3, CHR 0x80, CHR 0x81] @ ''B''] \<and>
   ((parseNames input = []) = (\<forall>s\<in>set (symbols input). isSpace s)) \<and>
   ((trim input = []) = (\<forall>s\<in>set (symbols input). isSpace s)) \<and>
   ((\<forall>s\<in>set (symbols input). isSpace s) \<longrightarrow>
      (\<exists>a. addRecord (u\<lparr>nameInput := input\<rparr>) w type t = (Some a, u\<lparr>nameInput := input\<rparr>, w)))"
proof -
  have tokens: "parseNames input = map concat (name_tokens (symbols input))"
    by (rule parseNames_tokens)
  have members:
    "\<forall>n\<in>set (parseNames input).
       n \<noteq> [] \<and> (\<forall>s\<in>set (symbols n). \<not> isSpace s) \<and> trim n = n"
    using parseNames_member [of _ input] by blast
  have example: "parseNames (''Alice  Bob'' @ [CHR 0x0A] @ ''Carol'') = [''Alice'', ''Bob'', ''Carol'']"
    by code_simp
  have ideographic: "parseNames (''A'' @ [CHR 0xE3, CHR 0x80, CHR 0x80] @ ''B'') = [''A'', ''B'']"
    by code_simp
  have every: "parseNames (concat (map (\<lambda>s. ''x'' @ s) white_space)) = replicate 25 ''x''"
    by code_simp
  have zero_width:
    "parseNames (''A'' @ [CHR 0xE2, CHR 0x80, CHR 0x8B] @ ''B'')
       = [''A'' @ [CHR 0xE2, CHR 0x80, CHR 0x8B] @ ''B'']"
    by code_simp
  have comma:
    "parseNames (''A'' @ [CHR 0xE3, CHR 0x80, CHR 0x81] @ ''B'')
       = [''A'' @ [CHR 0xE3, CHR 0x80, CHR 0x81] @ ''B'']"
    by code_simp
  have none: "(parseNames input = []) = (\<forall>s\<in>set (symbols input). isSpace s)"
    by (rule parseNames_Nil_iff)
  have trimmed: "(trim input = []) = (\<forall>s\<in>set (symbols input). isSpace s)"
    by (rule trim_Nil_iff)
  have blank:
    "(\<forall>s\<in>set (symbols input). isSpace s) \<longrightarrow>
       (\<exists>a. addRecord (u\<lparr>nameInput := input\<rparr>) w type t = (Some a, u\<lparr>nameInput := input\<rparr>, w))"
    using blank_rejected by blast
  show ?thesis
    by (rule conjI [OF tokens conjI [OF members conjI [OF example conjI [OF ideographic
          conjI [OF every conjI [OF zero_width conjI [OF comma conjI [OF none
          conjI [OF trimmed blank]]]]]]]]])
qed

theorem parseNames_splits_on_white_space_witness:
  "parseNames '' Ann  Li '' = map concat (name_tokens (symbols '' Ann  Li '')) \<and>
   parseNames '' Ann  Li '' = [''Ann'', ''Li''] \<and>
   list_all isSpace (symbols [CHR 0xE3, CHR 0x80, CHR 0x80, CHR 0x20, CHR 0xC2, CHR 0xA0]) \<and>
   parseNames [CHR 0xE3, CHR 0x80, CHR 0x80, CHR 0x20, CHR 0xC2, CHR 0xA0] = [] \<and>
   trim [CHR 0xE3, CHR 0x80, CHR 0x80, CHR 0x20, CHR 0xC2, CHR 0xA0] = [] \<and>
   (\<exists>a. addRecord
          \<lparr>nameInput = [CHR 0xE3, CHR 0x80, CHR 0x80, CHR 0x20, CHR 0xC2, CHR 0xA0],
           selectedDate = Some ''2024-01-05'', durationInput = Full,
           records = [], filterDate = None, filterType = ''all'', filterMonth = [],
           filterYear = [], searchName = [], statsFilterMonth = ''all'',
           statsFilterYear = ''all'', statsFilterType = ''all''\<rparr>
          \<lparr>useSQLite = False, reachable = True, db = \<lparr>rows = [], seq = 0, up = True\<rparr>,
           host = Window \<lparr>item = Missing, accepts = (\<lambda>v. True)\<rparr>\<rparr>
          Overtime
          \<lparr>ms = 1000, iso = ''2024-01-05T10:00:00.000Z'', sqltime = ''2024-01-05 10:00:00''\<rparr>
        = (Some a,
           \<lparr>nameInput = [CHR 0xE3, CHR 0x80, CHR 0x80, CHR 0x20, CHR 0xC2, CHR 0xA0],
            selectedDate = Some ''2024-01-05'', durationInput = Full,
            records = [], filterDate = None, filterType = ''all'', filterMonth = [],
            filterYear = [], searchName = [], statsFilterMonth = ''all'',
            statsFilterYear = ''all'', statsFilterType = ''all''\<rparr>,
           \<lparr>useSQLite = False, reachable = True, db = \<lparr>rows = [], seq = 0, up = True\<rparr>,
            host = Window \<lparr>item = Missing, accepts = (\<lambda>v. True)\<rparr>\<rparr>))"
proof -
  define blank where "blank = [CHR 0xE3, CHR 0x80, CHR 0x80, CHR 0x20, CHR 0xC2, CHR 0xA0]"
  have all_spaces: "list_all isSpace (symbols blank)"
    unfolding blank_def by code_simp
  then have spaces: "\<forall>s\<in>set (symbols blank). isSpace s"
    by (simp only: list_all_iff)
  have names: "parseNames '' Ann  Li '' = [''Ann'', ''Li'']" by code_simp
  show ?thesis
    using spaces all_spaces names
      parseNames_splits_on_white_space [of "'' Ann  Li ''"]
      parseNames_splits_on_white_space [of blank
        "\<lparr>nameInput = blank, selectedDate = Some ''2024-01-05'', durationInput = Full,
           records = [], filterDate = None, filterType = ''all'', filterMonth = [],
           filterYear = [], searchName = [], statsFilterMonth = ''all'',
           statsFilterYear = ''all'', statsFilterType = ''all''\<rparr>"
        "\<lparr>useSQLite = False, reachable = True, db = \<lparr>rows = [], seq = 0, up = True\<rparr>,
           host = Window \<lparr>item = Missing, accepts = (\<lambda>v. True)\<rparr>\<rparr>"
        Overtime
        "\<lparr>ms = 1000, iso = ''2024-01-05T10:00:00.000Z'', sqltime = ''2024-01-05 10:00:00''\<rparr>"]
    unfolding ui.simps blank_def by blast
qed

section \<open>The decimal text of an id\<close>

lemma digit_cases: "digit n \<in> set ''0123456789''"
proof -
  have "n mod 10 < 10" by simp
  then have "n mod 10 < length ''0123456789''" by simp
  then show ?thesis unfolding digit_def by (rule nth_mem)
qed

lemma digit_val_digit: "digit_val (digit n) = n mod 10"
proof -
  have "n mod 10 < 10" by simp
  then have "n mod 10 = 0 \<or> n mod 10 = 1 \<or> n mod 10 = 2 \<or> n mod 10 = 3 \<or> n mod 10 = 4
    \<or> n mod 10 = 5 \<or> n mod 10 = 6 \<or> n mod 10 = 7 \<or> n mod 10 = 8 \<or> n mod 10 = 9"
    by arith
  then show ?thesis
    by (elim disjE) (simp_all add: digit_def digit_val_def)
qed

lemma read_nat_snoc: "read_nat (ds @ [c]) = 10 * read_nat ds + digit_val c"
  by (simp add: read_nat_def)

lemma read_show_nat: "read_nat (show_nat n) = n"
proof (induction n rule: show_nat.induct)
  case (1 n)
  show ?case
  proof (cases "n < 10")
    case True
    then show ?thesis
      by (subst show_nat.simps) (simp add: read_nat_def digit_val_digit)
  next
    case False
    have "read_nat (show_nat n) = 10 * read_nat (show_nat (n div 10)) + digit_val (digit n)"
      using False by (subst show_nat.simps) (simp add: read_nat_snoc)
    also have "\<dots> = 10 * (n div 10) + n mod 10"
      using "1.IH" False by (simp add: digit_val_digit)
    finally show ?thesis by simp
  qed
qed

lemma show_nat_digits: "set (show_nat n) \<subseteq> set ''0123456789''"
proof (induction n rule: show_nat.induct)
  case (1 n)
  show ?case
  proof (cases "n < 10")
    case True
    then have "show_nat n = [digit n]" by (subst show_nat.simps) simp
    then show ?thesis using digit_cases [of n] by simp
  next
    case False
    then have "show_nat n = show_nat (n div 10) @ [digit n]" by (subst show_nat.simps) simp
    then show ?thesis using "1.IH" False digit_cases [of n] by simp
  qed
qed

lemma show_nat_inj: "show_nat m = show_nat n \<Longrightarrow> m = n"
  by (metis read_show_nat)

lemma show_nat_no_minus: "show_nat n \<noteq> CHR ''-'' # s"
proof
  assume "show_nat n = CHR ''-'' # s"
  then have "CHR ''-'' \<in> set (show_nat n)" by simp
  with show_nat_digits [of n] show False by auto
qed

lemma show_int_inj: "show_int a = show_int b \<longleftrightarrow> a = b"
proof
  assume eq: "show_int a = show_int b"
  show "a = b"
  proof (cases "a < 0"; cases "b < 0")
    assume "a < 0" "b < 0"
    with eq have "nat (- a) = nat (- b)" by (auto simp: show_int_def dest: show_nat_inj)
    with \<open>a < 0\<close> \<open>b < 0\<close> show ?thesis by simp
  next
    assume "a < 0" "\<not> b < 0"
    with eq show ?thesis using show_nat_no_minus [of "nat b"] by (simp add: show_int_def) metis
  next
    assume "\<not> a < 0" "b < 0"
    with eq show ?thesis using show_nat_no_minus [of "nat a"] by (simp add: show_int_def)
  next
    assume "\<not> a < 0" "\<not> b < 0"
    with eq have "nat a = nat b" by (auto simp: show_int_def dest: show_nat_inj)
    with \<open>\<not> a < 0\<close> \<open>\<not> b < 0\<close> show ?thesis by simp
  qed
qed simp

lemma id_text_revive: "id_text (revive t r) = map_option show_int (s_id r)"
  by (simp add: id_text_def revive_def)

lemma id_text_num: "id_text (revive t r) \<noteq> Some (show_int n) \<longleftrightarrow> s_id r \<noteq> Some n"
  by (cases "s_id r") (simp_all add: id_text_revive show_int_inj)

lemma filter_revive:
  "filter (\<lambda>record. id_text record \<noteq> Some s) (map (revive t) xs)
     = map (revive t) (filter (\<lambda>r. map_option show_int (s_id r) \<noteq> Some s) xs)"
  by (simp add: filter_map o_def id_text_revive)

lemma rewritten_id: "s_id (rewritten t r) = s_id r"
  by (simp add: rewritten_def stringify_def revive_def)

lemma rewritten_filled: "filled r \<Longrightarrow> rewritten t r = r"
  by (cases "s_duration r"; cases "s_created_at r")
     (auto simp: filled_def rewritten_def stringify_def revive_def or_else_def)

section \<open>Deleting on the ephemeral backend\<close>

lemma getLocalRecords_collection:
  "item ls \<noteq> Garbled \<Longrightarrow> getLocalRecords (Window ls) t = Inr (map (revive t) (collection (Window ls)))"
  by (cases "item ls") (simp_all add: getLocalRecords_def collection_def)

lemma keeps_filter:
  "filter (\<lambda>record. id_text record \<noteq> Some s) (map (revive t) xs) = map (revive t) (filter (keeps s) xs)"
  by (induction xs) (simp_all add: keeps_def id_text_revive)

lemma stringify_revive: "stringify \<circ> revive t = rewritten t"
  by (rule ext) (simp add: rewritten_def)

lemma deleteLocalRecord_Window:
  assumes "item ls \<noteq> Garbled"
  shows "deleteLocalRecord s (Window ls) t =
    (if accepts ls (map (rewritten t) (filter (keeps s) (collection (Window ls))))
     then (Inr (), Window (ls\<lparr>item := Saved (map (rewritten t) (filter (keeps s) (collection (Window ls))))\<rparr>))
     else (Inl QuotaExceededError, Window ls))"
  using assms
  by (simp add: deleteLocalRecord_def getLocalRecords_collection keeps_filter setItem_def
      stringify_revive Let_def)

lemma deleteLocalRecord_Garbled:
  "item ls = Garbled \<Longrightarrow> deleteLocalRecord s (Window ls) t = (Inl SyntaxError, Window ls)"
  by (simp add: deleteLocalRecord_def getLocalRecords_def)

lemma deleteLocalRecord_NoWindow: "deleteLocalRecord s NoWindow t = (Inr (), NoWindow)"
  by (simp add: deleteLocalRecord_def getLocalRecords_def)

lemma collection_Saved [simp]: "collection (Window (ls\<lparr>item := Saved xs\<rparr>)) = xs"
  by (simp add: collection_def)

lemma keeps_num: "keeps (show_int n) r \<longleftrightarrow> s_id r \<noteq> Some n"
  by (cases "s_id r") (simp_all add: keeps_def show_int_inj)

lemma keeps_no_id: "s_id r = None \<Longrightarrow> keeps s r"
  by (simp add: keeps_def)

lemma filter_no_id_kept:
  "filter (\<lambda>r. s_id r = None) (map (rewritten t) (filter (keeps s) xs))
     = map (rewritten t) (filter (\<lambda>r. s_id r = None) xs)"
proof -
  have "filter (\<lambda>r. s_id r = None) (map (rewritten t) ys) = map (rewritten t) (filter (\<lambda>r. s_id r = None) ys)" for ys
    by (simp add: filter_map o_def rewritten_id)
  moreover have "filter (\<lambda>r. s_id r = None) (filter (keeps s) xs) = filter (\<lambda>r. s_id r = None) xs"
    by (auto simp: keeps_no_id intro: filter_cong)
  ultimately show ?thesis by simp
qed

lemma deleteLocalRecord_without_id:
  "without_id (snd (deleteLocalRecord s h t)) = without_id h \<or>
   without_id (snd (deleteLocalRecord s h t)) = map (rewritten t) (without_id h)"
proof (cases h)
  case NoWindow
  then show ?thesis by (simp add: deleteLocalRecord_NoWindow)
next
  case (Window ls)
  show ?thesis
  proof (cases "item ls = Garbled")
    case True
    then show ?thesis using Window by (simp add: deleteLocalRecord_Garbled)
  next
    case False
    then show ?thesis using Window
      by (simp add: deleteLocalRecord_Window without_id_def filter_no_id_kept)
  qed
qed

lemma deleteRecord_cases:
  "deleteRecord m response i h t = deleteLocalRecord (toString i) h t \<or>
   deleteRecord m response i h t = (Inr (), h)"
  by (simp add: deleteRecord_def split: fetched.split)

lemma id_text_int: "id_text r \<noteq> Some (show_int n) \<longleftrightarrow> rec_id r \<noteq> Some n"
  by (cases "rec_id r") (simp_all add: id_text_def show_int_inj)

lemma getRecords_local: "getRecords False response h t = getLocalRecords h t"
  by (simp add: getRecords_def)

lemma deleteRecord_local: "deleteRecord False response i h t = deleteLocalRecord (toString i) h t"
  by (simp add: deleteRecord_def)

lemma saveRecord_local: "saveRecord False response d h t = saveLocalRecord d h t"
  by (simp add: saveRecord_def)

lemma list_after_delete:
  assumes "deleteLocalRecord s h t = (Inr (), h')"
  shows "\<exists>rs. getLocalRecords h' t' = Inr rs \<and> (\<forall>r\<in>set rs. id_text r \<noteq> Some s)"
proof (cases h)
  case NoWindow
  with assms have "h' = NoWindow" by (simp add: deleteLocalRecord_NoWindow)
  then show ?thesis by (simp add: getLocalRecords_def)
next
  case (Window ls)
  show ?thesis
  proof (cases "item ls = Garbled")
    case True
    with assms Window show ?thesis by (simp add: deleteLocalRecord_Garbled)
  next
    case False
    let ?kept = "map (rewritten t) (filter (keeps s) (collection (Window ls)))"
    from assms Window False have h': "h' = Window (ls\<lparr>item := Saved ?kept\<rparr>)"
      by (simp add: deleteLocalRecord_Window split: if_splits)
    have "getLocalRecords h' t' = Inr (map (revive t') ?kept)"
      unfolding h' by (simp add: getLocalRecords_def)
    moreover have "\<forall>r\<in>set (map (revive t') ?kept). id_text r \<noteq> Some s"
      by (auto simp: id_text_revive rewritten_id keeps_def)
    ultimately show ?thesis by blast
  qed
qed

lemma rewritten_fields:
  "s_id (rewritten t r) = s_id r \<and> s_names (rewritten t r) = s_names r \<and>
   s_date (rewritten t r) = s_date r \<and> s_type (rewritten t r) = s_type r \<and>
   s_duration (rewritten t r) = Some (case s_duration r of None \<Rightarrow> Full | Some d \<Rightarrow> d) \<and>
   s_created_at (rewritten t r) = Some (or_else (s_created_at r) (iso t))"
  by (simp add: rewritten_def stringify_def revive_def)

lemma rewritten_all_filled: "\<forall>r\<in>set xs. filled r \<Longrightarrow> map (rewritten t) xs = xs"
  by (rule map_idI) (simp add: rewritten_filled)

lemma filter_keeps_all: "\<forall>r\<in>set xs. keeps s r \<Longrightarrow> filter (keeps s) xs = xs"
  by (simp add: filter_id_conv)

text \<open>
  Claim C7, as the code has it. Whenever a delete on the ephemeral backend completes, a
  list that follows (at any later instant) gives no record whose id has the text of the
  deleted id, so for a numeric id no record with that number. When no stored record has
  the id, the stored value can be read and storage takes the rewritten value, the delete
  does not raise and keeps every stored record in its place; but it writes each record
  back as it was read: id, names, date and type as stored, a missing duration as
  \<open>full\<close>, a missing or empty \<open>created_at\<close> as the time of the delete. A collection
  whose records all have both fields is written back as it was. Without a window there
  is nothing stored, and the delete does nothing.
\<close>

theorem delete_then_list:
  "(deleteRecord False response i h t = (Inr (), h') \<longrightarrow>
      (\<exists>rs. getRecords False response' h' t' = Inr rs \<and>
            (\<forall>r\<in>set rs. id_text r \<noteq> Some (toString i)) \<and>
            (\<forall>n. i = NumId n \<longrightarrow> (\<forall>r\<in>set rs. rec_id r \<noteq> Some n)))) \<and>
   (item ls \<noteq> Garbled \<and> (\<forall>r\<in>set (collection (Window ls)). keeps (toString i) r) \<and>
    accepts ls (map (rewritten t) (collection (Window ls))) \<longrightarrow>
      deleteRecord False response i (Window ls) t =
        (Inr (), Window (ls\<lparr>item := Saved (map (rewritten t) (collection (Window ls)))\<rparr>))) \<and>
   (s_id (rewritten t r) = s_id r \<and> s_names (rewritten t r) = s_names r \<and>
    s_date (rewritten t r) = s_date r \<and> s_type (rewritten t r) = s_type r \<and>
    s_duration (rewritten t r) = Some (case s_duration r of None \<Rightarrow> Full | Some d \<Rightarrow> d) \<and>
    s_created_at (rewritten t r) = Some (or_else (s_created_at r) (iso t))) \<and>
   ((\<forall>r\<in>set xs. filled r) \<longrightarrow> map (rewritten t) xs = xs) \<and>
   deleteRecord False response i NoWindow t = (Inr (), NoWindow)"
proof -
  have a: "deleteRecord False response i h t = (Inr (), h') \<longrightarrow>
      (\<exists>rs. getRecords False response' h' t' = Inr rs \<and>
            (\<forall>r\<in>set rs. id_text r \<noteq> Some (toString i)) \<and>
            (\<forall>n. i = NumId n \<longrightarrow> (\<forall>r\<in>set rs. rec_id r \<noteq> Some n)))"
  proof
    assume "deleteRecord False response i h t = (Inr (), h')"
    then have "deleteLocalRecord (toString i) h t = (Inr (), h')"
      by (simp add: deleteRecord_local)
    from list_after_delete [OF this, of t'] obtain rs
      where rs: "getLocalRecords h' t' = Inr rs" "\<forall>r\<in>set rs. id_text r \<noteq> Some (toString i)"
      by blast
    then have "\<forall>n. i = NumId n \<longrightarrow> (\<forall>r\<in>set rs. rec_id r \<noteq> Some n)"
      by (auto simp: id_text_int)
    with rs show "\<exists>rs. getRecords False response' h' t' = Inr rs \<and>
            (\<forall>r\<in>set rs. id_text r \<noteq> Some (toString i)) \<and>
            (\<forall>n. i = NumId n \<longrightarrow> (\<forall>r\<in>set rs. rec_id r \<noteq> Some n))"
      by (simp add: getRecords_local)
  qed
  have b: "item ls \<noteq> Garbled \<and> (\<forall>r\<in>set (collection (Window ls)). keeps (toString i) r) \<and>
    accepts ls (map (rewritten t) (collection (Window ls))) \<longrightarrow>
      deleteRecord False response i (Window ls) t =
        (Inr (), Window (ls\<lparr>item := Saved (map (rewritten t) (collection (Window ls)))\<rparr>))"
    by (simp add: deleteRecord_local deleteLocalRecord_Window filter_keeps_all)
  have d: "(\<forall>r\<in>set xs. filled r) \<longrightarrow> map (rewritten t) xs = xs"
    by (simp add: rewritten_all_filled)
  have e: "deleteRecord False response i NoWindow t = (Inr (), NoWindow)"
    by (simp add: deleteRecord_local deleteLocalRecord_NoWindow)
  show ?thesis
    by (rule conjI [OF a conjI [OF b conjI [OF rewritten_fields conjI [OF d e]]]])
qed

text \<open>
  The claim as it was stated fails on a record stored without \<open>duration\<close> and
  \<open>created_at\<close>: deleting the id 2, which no stored record has, succeeds and changes the
  stored collection.
\<close>

theorem delete_unknown_id_rewrites_collection:
  "list_all (keeps (toString (NumId 2))) (collection (browser [legacy])) \<and>
   fst (deleteRecord False Rejected (NumId 2) (browser [legacy]) t0) = Inr () \<and>
   collection (snd (deleteRecord False Rejected (NumId 2) (browser [legacy]) t0))
     \<noteq> collection (browser [legacy])"
proof -
  have k: "keeps (toString (NumId 2)) legacy"
    by (simp add: keeps_num legacy_def)
  have r: "rewritten t0 legacy \<noteq> legacy"
    by (simp add: rewritten_def stringify_def revive_def legacy_def)
  show ?thesis
    using k r
    by (simp add: browser_def deleteRecord_local deleteLocalRecord_Window collection_def)
qed

theorem delete_then_list_witness:
  "deleteRecord False Rejected (NumId 5) (browser [stored5, anonymous]) t0
     = (Inr (), browser [anonymous]) \<and>
   getRecords False Rejected (browser [anonymous]) t1 = Inr [revive t1 anonymous] \<and>
   rec_id (revive t1 anonymous) \<noteq> Some 5 \<and>
   list_all (keeps (toString (NumId 2))) (collection (browser [stored5, anonymous])) \<and>
   list_all filled [stored5, anonymous] \<and>
   deleteRecord False Rejected (NumId 2) (browser [stored5, anonymous]) t0
     = (Inr (), browser [stored5, anonymous])"
proof -
  let ?ls = "\<lparr>item = Saved [stored5, anonymous], accepts = (\<lambda>v. True)\<rparr>"
  have c: "\<forall>r\<in>set [stored5, anonymous]. filled r"
    by (simp add: filled_def stored5_def anonymous_def)
  have k2: "\<forall>r\<in>set (collection (Window ?ls)). keeps (toString (NumId 2)) r"
    by (simp add: keeps_num keeps_no_id collection_def stored5_def anonymous_def)
  note T = delete_then_list [where i = "NumId 2" and ls = ?ls and t = t0
      and xs = "[stored5, anonymous]" and response = Rejected]
  from T c have same: "map (rewritten t0) [stored5, anonymous] = [stored5, anonymous]"
    by blast
  have col: "collection (Window ?ls) = [stored5, anonymous]"
    by (simp add: collection_def)
  have ok: "item ?ls \<noteq> Garbled" "accepts ?ls (map (rewritten t0) (collection (Window ?ls)))"
    by simp_all
  from T k2 ok have
    "deleteRecord False Rejected (NumId 2) (Window ?ls) t0
       = (Inr (), Window (?ls\<lparr>item := Saved (map (rewritten t0) (collection (Window ?ls)))\<rparr>))"
    by blast
  then have unknown:
    "deleteRecord False Rejected (NumId 2) (browser [stored5, anonymous]) t0
       = (Inr (), browser [stored5, anonymous])"
    using same by (simp add: col browser_def)
  have known:
    "deleteRecord False Rejected (NumId 5) (browser [stored5, anonymous]) t0
       = (Inr (), browser [anonymous])"
  proof -
    have f: "\<not> keeps (show_int 5) stored5" "keeps (show_int 5) anonymous"
      by (simp_all add: keeps_num keeps_no_id stored5_def anonymous_def)
    have ra: "rewritten t0 anonymous = anonymous"
      using same by simp
    show ?thesis
      by (simp add: browser_def deleteRecord_local deleteLocalRecord_Window col f ra)
  qed
  from delete_then_list [where i = "NumId 5" and h = "browser [stored5, anonymous]"
      and t = t0 and response = Rejected and h' = "browser [anonymous]" and t' = t1
      and response' = Rejected] known
  obtain rs where rs: "getRecords False Rejected (browser [anonymous]) t1 = Inr rs"
      "\<forall>r\<in>set rs. rec_id r \<noteq> Some 5"
    by blast
  have l: "getRecords False Rejected (browser [anonymous]) t1 = Inr [revive t1 anonymous]"
    by (simp add: getRecords_local getLocalRecords_def browser_def)
  with rs have "rec_id (revive t1 anonymous) \<noteq> Some 5" by auto
  with known l k2 c unknown show ?thesis
    by (simp add: list_all_iff browser_def)
qed

lemma deleteRecord_without_id:
  "without_id (snd (deleteRecord m response i h t)) = without_id h \<or>
   without_id (snd (deleteRecord m response i h t)) = map (rewritten t) (without_id h)"
  using deleteRecord_cases [of m response i h t] deleteLocalRecord_without_id [of "toString i" h t]
  by auto

text \<open>
  Claim C10. On the ephemeral backend, when the stored value can be read and storage
  takes the result, \<open>delete(id)\<close> leaves exactly the stored records that \<open>keeps\<close>
  admits, in their order (each written back as it was read): a record goes exactly when
  it has an id whose decimal text is the text of the given id. So the number \<open>n\<close> and
  the text of \<open>n\<close> both remove the records with id \<open>n\<close> and no others. A record without
  an id always stays, and it keeps having no id; whatever the mode, the response and the
  id of a call of \<open>deleteRecord\<close>, the stored records without an id are afterwards the
  same ones, as they were or as they are written back.
\<close>

theorem delete_removes_matching_ids:
  "(item ls \<noteq> Garbled \<and>
    accepts ls (map (rewritten t) (filter (keeps (toString i)) (collection (Window ls)))) \<longrightarrow>
      deleteRecord False response i (Window ls) t =
        (Inr (),
         Window (ls\<lparr>item :=
           Saved (map (rewritten t) (filter (keeps (toString i)) (collection (Window ls))))\<rparr>))) \<and>
   (keeps (toString i) r \<longleftrightarrow> (\<forall>n. s_id r = Some n \<longrightarrow> show_int n \<noteq> toString i)) \<and>
   (keeps (toString (NumId n)) r \<longleftrightarrow> s_id r \<noteq> Some n) \<and>
   (keeps (toString (StrId (show_int n))) r \<longleftrightarrow> s_id r \<noteq> Some n) \<and>
   (s_id r = None \<longrightarrow> keeps (toString i) r) \<and>
   s_id (rewritten t r) = s_id r \<and>
   (without_id (snd (deleteRecord m response' i' h t')) = without_id h \<or>
    without_id (snd (deleteRecord m response' i' h t')) = map (rewritten t') (without_id h))"
proof -
  have a: "item ls \<noteq> Garbled \<and>
    accepts ls (map (rewritten t) (filter (keeps (toString i)) (collection (Window ls)))) \<longrightarrow>
      deleteRecord False response i (Window ls) t =
        (Inr (),
         Window (ls\<lparr>item :=
           Saved (map (rewritten t) (filter (keeps (toString i)) (collection (Window ls))))\<rparr>))"
    by (simp add: deleteRecord_local deleteLocalRecord_Window)
  have b: "keeps (toString i) r \<longleftrightarrow> (\<forall>n. s_id r = Some n \<longrightarrow> show_int n \<noteq> toString i)"
    by (cases "s_id r") (simp_all add: keeps_def)
  have c: "keeps (toString (NumId n)) r \<longleftrightarrow> s_id r \<noteq> Some n"
    by (simp add: keeps_num)
  have d: "keeps (toString (StrId (show_int n))) r \<longleftrightarrow> s_id r \<noteq> Some n"
    by (simp add: keeps_num)
  have e: "s_id r = None \<longrightarrow> keeps (toString i) r"
    by (simp add: keeps_no_id)
  show ?thesis
    by (rule conjI [OF a conjI [OF b conjI [OF c conjI [OF d conjI [OF e
          conjI [OF rewritten_id deleteRecord_without_id]]]]]])
qed

theorem delete_removes_matching_ids_witness:
  "deleteRecord False Rejected (StrId ''5'') (browser [stored5, anonymous, legacy]) t0
     = (Inr (), browser [anonymous, rewritten t0 legacy]) \<and>
   keeps (toString (StrId ''5'')) anonymous \<and>
   \<not> keeps (toString (NumId 5)) stored5 \<and>
   \<not> keeps (toString (StrId (show_int 5))) stored5 \<and>
   keeps (toString (NumId 5)) legacy \<and>
   show_int 5 = ''5'' \<and>
   without_id (browser [anonymous, rewritten t0 legacy]) = [anonymous]"
proof -
  let ?ls = "\<lparr>item = Saved [stored5, anonymous, legacy], accepts = (\<lambda>v. True)\<rparr>"
  note T = delete_removes_matching_ids [where n = 5 and t = t0]
  have five: "show_int 5 = ''5''" by code_simp
  have k5: "\<not> keeps (toString (NumId 5)) stored5"
    using T [where r = stored5] by (simp add: stored5_def)
  have k5': "\<not> keeps (toString (StrId (show_int 5))) stored5"
    using T [where r = stored5] by (simp add: stored5_def)
  have kl: "keeps (toString (NumId 5)) legacy"
    using T [where r = legacy] by (simp add: legacy_def)
  have ka: "keeps (toString (StrId ''5'')) anonymous"
    using T [where r = anonymous and i = "StrId ''5''"] by (simp add: anonymous_def)
  have col: "collection (Window ?ls) = [stored5, anonymous, legacy]"
    by (simp add: collection_def)
  have f: "filter (keeps (toString (StrId ''5''))) (collection (Window ?ls)) = [anonymous, legacy]"
    using k5 kl ka by (simp add: col five)
  have ra: "rewritten t0 anonymous = anonymous"
    by (simp add: rewritten_filled filled_def anonymous_def)
  have "deleteRecord False Rejected (StrId ''5'') (Window ?ls) t0 =
        (Inr (), Window (?ls\<lparr>item :=
           Saved (map (rewritten t0) (filter (keeps (toString (StrId ''5''))) (collection (Window ?ls))))\<rparr>))"
    using T [where i = "StrId ''5''" and ls = ?ls and response = Rejected] by simp
  then have del: "deleteRecord False Rejected (StrId ''5'') (browser [stored5, anonymous, legacy]) t0
     = (Inr (), browser [anonymous, rewritten t0 legacy])"
    unfolding f by (simp add: browser_def ra)
  have w: "without_id (browser [anonymous, rewritten t0 legacy]) = [anonymous]"
    by (simp add: without_id_def browser_def collection_def rewritten_id anonymous_def legacy_def)
  from del ka k5 k5' kl five w show ?thesis by blast
qed

section \<open>Creating on the ephemeral backend\<close>

lemma saveLocalRecord_Window:
  assumes "item ls \<noteq> Garbled"
  shows "saveLocalRecord d (Window ls) t =
    (if accepts ls (stringify (newLocalRecord d t) # map (rewritten t) (collection (Window ls)))
     then (Inr (newLocalRecord d t),
           Window (ls\<lparr>item := Saved (stringify (newLocalRecord d t) # map (rewritten t) (collection (Window ls)))\<rparr>))
     else (Inl QuotaExceededError, Window ls))"
  using assms
  by (simp add: saveLocalRecord_def getLocalRecords_collection setItem_def stringify_revive Let_def)


lemma browser_ok [simp]:
  "item \<lparr>item = Saved xs, accepts = (\<lambda>v. True)\<rparr> \<noteq> Garbled"
  by simp

lemma save_browser:
  "saveLocalRecord d (browser xs) t =
     (Inr (newLocalRecord d t), browser (stringify (newLocalRecord d t) # map (rewritten t) xs))"
  by (simp add: browser_def saveLocalRecord_Window collection_def)

lemma list_browser: "getLocalRecords (browser xs) t = Inr (map (revive t) xs)"
  by (simp add: browser_def getLocalRecords_def)

lemma collection_browser: "collection (browser xs) = xs"
  by (simp add: browser_def collection_def)

lemma newLocalRecord_id: "rec_id (newLocalRecord d t) = Some (ms t)"
  by (simp add: newLocalRecord_def)

lemma stringify_id: "s_id (stringify r) = rec_id r"
  by (simp add: stringify_def)

lemma ms_t0: "ms t0 = 1700000000000"
  by (simp add: t0_def)

text \<open>
  Create and then list, where the stored value can be read and storage takes the new
  array: the list starts with a record that has the draft's names, date, type and
  duration and the id \<open>Date.now()\<close>, followed by the records stored before.
\<close>

lemma revive_new:
  "names (revive t' (stringify (newLocalRecord d t))) = names d \<and>
   date (revive t' (stringify (newLocalRecord d t))) = date d \<and>
   rtype (revive t' (stringify (newLocalRecord d t))) = rtype d \<and>
   duration (revive t' (stringify (newLocalRecord d t))) = duration d \<and>
   rec_id (revive t' (stringify (newLocalRecord d t))) = Some (ms t)"
  by (simp add: revive_def stringify_def newLocalRecord_def)

lemma create_then_list:
  assumes "item ls \<noteq> Garbled"
    and "accepts ls (stringify (newLocalRecord d t) # map (rewritten t) (collection (Window ls)))"
  shows "\<exists>h' r rest.
    saveRecord False response d (Window ls) t = (Inr (newLocalRecord d t), h') \<and>
    getRecords False response' h' t' = Inr (r # rest) \<and>
    names r = names d \<and> date r = date d \<and> rtype r = rtype d \<and> duration r = duration d \<and>
    rec_id r = Some (ms t) \<and>
    map rec_id rest = map s_id (collection (Window ls))"
proof -
  let ?v = "stringify (newLocalRecord d t) # map (rewritten t) (collection (Window ls))"
  let ?h = "Window (ls\<lparr>item := Saved ?v\<rparr>)"
  have s: "saveRecord False response d (Window ls) t = (Inr (newLocalRecord d t), ?h)"
    using assms by (simp add: saveRecord_local saveLocalRecord_Window)
  have l: "getRecords False response' ?h t'
      = Inr (revive t' (stringify (newLocalRecord d t))
             # map (revive t') (map (rewritten t) (collection (Window ls))))"
    by (simp add: getRecords_local getLocalRecords_def)
  have ids: "map rec_id (map (revive t') (map (rewritten t) (collection (Window ls))))
      = map s_id (collection (Window ls))"
    by (simp add: revive_def rewritten_id o_def)
  from s l ids revive_new [of t' d t] show ?thesis by blast
qed

text \<open>
  Claim C2 asks that two creates on the ephemeral backend never get the same id. The
  id is \<open>Date.now()\<close> and nothing checks it against the stored ids: two creates within
  one millisecond (here of two different drafts, on an empty store) return records with
  the same id, and the stored collection then holds that id twice.
\<close>

theorem two_creates_in_one_millisecond_share_the_id:
  "fst (saveRecord False Rejected draft0 (browser []) t0) = Inr (newLocalRecord draft0 t0) \<and>
   fst (saveRecord False Rejected (draft0\<lparr>names := [''Li'']\<rparr>)
          (snd (saveRecord False Rejected draft0 (browser []) t0)) t0)
     = Inr (newLocalRecord (draft0\<lparr>names := [''Li'']\<rparr>) t0) \<and>
   rec_id (newLocalRecord draft0 t0) = rec_id (newLocalRecord (draft0\<lparr>names := [''Li'']\<rparr>) t0) \<and>
   map s_id (collection (snd (saveRecord False Rejected (draft0\<lparr>names := [''Li'']\<rparr>)
          (snd (saveRecord False Rejected draft0 (browser []) t0)) t0)))
     = [Some 1700000000000, Some 1700000000000]"
  by (simp add: saveRecord_local save_browser collection_browser newLocalRecord_id
      stringify_id rewritten_id ms_t0)

text \<open>
  Claim C6 asks that create followed by list gives exactly one record that matches the
  draft and carries the new id. Creating the same draft twice within one millisecond
  leaves two such records in the list: the second create returns the record it made,
  and the list holds that record twice.
\<close>

theorem create_twice_then_list_has_two_matches:
  "getRecords False Rejected
     (snd (saveRecord False Rejected draft0
        (snd (saveRecord False Rejected draft0 (browser []) t0)) t0)) t1
     = Inr [newLocalRecord draft0 t0, newLocalRecord draft0 t0] \<and>
   fst (saveRecord False Rejected draft0
        (snd (saveRecord False Rejected draft0 (browser []) t0)) t0)
     = Inr (newLocalRecord draft0 t0)"
proof -
  have "revive t1 (stringify (newLocalRecord draft0 t0)) = newLocalRecord draft0 t0"
    by (simp add: newLocalRecord_def stringify_def revive_def or_else_def t0_def draft0_def)
  moreover have "rewritten t0 (stringify (newLocalRecord draft0 t0)) = stringify (newLocalRecord draft0 t0)"
    by (simp add: rewritten_filled filled_def newLocalRecord_def stringify_def or_else_def
        t0_def draft0_def)
  ultimately show ?thesis
    by (simp add: saveRecord_local getRecords_local save_browser list_browser)
qed

section \<open>Creating on the durable backend\<close>

lemma fold_max_ge:
  "m \<le> fold (\<lambda>row m. case rec_id row of None \<Rightarrow> m | Some i \<Rightarrow> max i m) xs (m::int)"
proof (induction xs arbitrary: m)
  case Nil
  show ?case by simp
next
  case (Cons x xs)
  have "m \<le> (case rec_id x of None \<Rightarrow> m | Some i \<Rightarrow> max i m)"
    by (simp split: option.split)
  also have "\<dots> \<le> fold (\<lambda>row m. case rec_id row of None \<Rightarrow> m | Some i \<Rightarrow> max i m) xs \<dots>"
    by (rule Cons.IH)
  finally show ?case by simp
qed



lemma lastInsertRowid_seq: "seq d < lastInsertRowid d"
  using fold_max_ge [of "seq d" "rows d"] by (simp add: lastInsertRowid_def)




lemma POST_down: "\<not> up d \<Longrightarrow> POST d record t = (Resolved 500 None, d)"
  by (simp add: POST_def SQLite_createRecord_def)






section \<open>Falling back to the ephemeral backend\<close>

lemma filter_same_length: "length (filter P xs) = length xs \<Longrightarrow> filter P xs = xs"
proof (induction xs)
  case Nil
  show ?case by simp
next
  case (Cons x xs)
  have le: "length (filter P xs) \<le> length xs" by (rule length_filter_le)
  show ?case
  proof (cases "P x")
    case True
    with Cons show ?thesis by simp
  next
    case False
    with Cons.prems le show ?thesis by simp
  qed
qed

lemma SQLite_deleteRecord_none:
  "SQLite_deleteRecord d n = (Inr False, d') \<Longrightarrow> d' = d"
proof -
  assume a: "SQLite_deleteRecord d n = (Inr False, d')"
  let ?kept = "filter (\<lambda>row. rec_id row \<noteq> Some n) (rows d)"
  from a have up: "up d" by (auto simp: SQLite_deleteRecord_def split: if_splits)
  with a have "length (rows d) - length ?kept = 0" and d': "d' = d\<lparr>rows := ?kept\<rparr>"
    by (auto simp: SQLite_deleteRecord_def Let_def)
  moreover have "length ?kept \<le> length (rows d)" by (rule length_filter_le)
  ultimately have "length ?kept = length (rows d)" by simp
  then have "?kept = rows d" by (rule filter_same_length)
  with d' show ?thesis by simp
qed

lemma DELETE_404: "DELETE d param = (Resolved 404 body, d') \<Longrightarrow> d' = d"
  by (auto simp: DELETE_def split: option.splits if_splits sum.splits prod.splits
      dest: SQLite_deleteRecord_none)

lemma not_ok_404: "\<not> ok 404"
  by (simp add: ok_def)

lemma failed_getRecords: "failed response \<Longrightarrow> getRecords True response h t = getLocalRecords h t"
  by (auto simp: failed_def getRecords_def split: fetched.splits option.splits)

lemma failed_saveRecord:
  "failed response \<Longrightarrow> saveRecord True response draft h t = saveLocalRecord draft h t"
  by (auto simp: failed_def saveRecord_def split: fetched.splits option.splits)

lemma refused_deleteRecord:
  "refused response \<Longrightarrow> deleteRecord True response i h t = deleteLocalRecord (toString i) h t"
  by (auto simp: refused_def deleteRecord_def split: fetched.splits)

lemma GET_down: "\<not> up d \<Longrightarrow> GET d = Resolved 500 None"
  by (simp add: GET_def SQLite_getAllRecords_def)

lemma DELETE_down: "\<not> up d \<Longrightarrow> \<exists>status. DELETE d param = (Resolved status None, d) \<and> \<not> ok status"
  by (auto simp: DELETE_def ok_def split: option.splits)

lemma Store_list_fallback:
  "useSQLite w \<Longrightarrow> \<not> reachable w \<or> \<not> up (db w) \<Longrightarrow> Store_list w t = getLocalRecords (host w) t"
  by (auto simp: Store_list_def GET_down failed_getRecords failed_def ok_def)

lemma Store_create_fallback:
  "useSQLite w \<Longrightarrow> \<not> reachable w \<or> \<not> up (db w) \<Longrightarrow>
     Store_create w draft t =
       (fst (saveLocalRecord draft (host w) t),
        w\<lparr>host := snd (saveLocalRecord draft (host w) t)\<rparr>)"
  by (auto simp: Store_create_def POST_down failed_saveRecord failed_def ok_def split_beta)

lemma Store_delete_fallback:
  assumes "useSQLite w" and "\<not> reachable w \<or> \<not> up (db w)"
  shows "Store_delete w i t =
       (fst (deleteLocalRecord (toString i) (host w) t),
        w\<lparr>host := snd (deleteLocalRecord (toString i) (host w) t)\<rparr>)"
proof (cases "reachable w")
  case False
  with assms show ?thesis
    by (simp add: Store_delete_def refused_deleteRecord refused_def split_beta)
next
  case True
  with assms have "\<not> up (db w)" by simp
  from DELETE_down [OF this, of "Some (toString i)"] obtain status
    where "DELETE (db w) (Some (toString i)) = (Resolved status None, db w)" "\<not> ok status"
    by blast
  with assms True show ?thesis
    by (simp add: Store_delete_def refused_deleteRecord refused_def split_beta)
qed

lemma Store_delete_404:
  assumes "useSQLite w" and "reachable w"
    and "fst (DELETE (db w) (Some (toString i))) = Resolved 404 body"
  shows "Store_delete w i t =
       (fst (deleteLocalRecord (toString i) (host w) t),
        w\<lparr>host := snd (deleteLocalRecord (toString i) (host w) t)\<rparr>)"
proof -
  obtain d' where d': "DELETE (db w) (Some (toString i)) = (Resolved 404 body, d')"
    using assms(3) by (cases "DELETE (db w) (Some (toString i))") simp
  then have "d' = db w" by (rule DELETE_404)
  with d' assms show ?thesis
    by (simp add: Store_delete_def refused_deleteRecord refused_def not_ok_404 split_beta)
qed

text \<open>
  Claim C3. With the durable backend active, a failed durable attempt makes each of the
  three methods do what its local method does and return that: for \<open>getRecords\<close> and
  \<open>saveRecord\<close> when the request is rejected, the status is not ok or the body cannot
  be read; for \<open>deleteRecord\<close> when the request is rejected or the status is not ok.
  So the caller sees an error only if the local method raises one. For the store at
  work: when the routes cannot be reached or the database is down, list, create and
  delete give the local results and change nothing but the browser's storage.
\<close>

theorem durable_failure_falls_back:
  "(failed response_l \<longrightarrow> getRecords True response_l h t = getLocalRecords h t) \<and>
   (failed response_c \<longrightarrow> saveRecord True response_c draft h t = saveLocalRecord draft h t) \<and>
   (refused response_d \<longrightarrow>
      deleteRecord True response_d i h t = deleteLocalRecord (toString i) h t) \<and>
   (useSQLite w \<and> (\<not> reachable w \<or> \<not> up (db w)) \<longrightarrow>
      Store_list w t = getLocalRecords (host w) t \<and>
      Store_create w draft t =
        (fst (saveLocalRecord draft (host w) t),
         w\<lparr>host := snd (saveLocalRecord draft (host w) t)\<rparr>) \<and>
      Store_delete w i t =
        (fst (deleteLocalRecord (toString i) (host w) t),
         w\<lparr>host := snd (deleteLocalRecord (toString i) (host w) t)\<rparr>))"
proof -
  have a: "failed response_l \<longrightarrow> getRecords True response_l h t = getLocalRecords h t"
    by (simp add: failed_getRecords)
  have b: "failed response_c \<longrightarrow> saveRecord True response_c draft h t = saveLocalRecord draft h t"
    by (simp add: failed_saveRecord)
  have c: "refused response_d \<longrightarrow>
      deleteRecord True response_d i h t = deleteLocalRecord (toString i) h t"
    by (simp add: refused_deleteRecord)
  have d: "useSQLite w \<and> (\<not> reachable w \<or> \<not> up (db w)) \<longrightarrow>
      Store_list w t = getLocalRecords (host w) t \<and>
      Store_create w draft t =
        (fst (saveLocalRecord draft (host w) t),
         w\<lparr>host := snd (saveLocalRecord draft (host w) t)\<rparr>) \<and>
      Store_delete w i t =
        (fst (deleteLocalRecord (toString i) (host w) t),
         w\<lparr>host := snd (deleteLocalRecord (toString i) (host w) t)\<rparr>)"
    using Store_list_fallback [of w t] Store_create_fallback [of w draft t]
      Store_delete_fallback [of w i t]
    by blast
  show ?thesis
    by (rule conjI [OF a conjI [OF b conjI [OF c d]]])
qed

theorem durable_failure_falls_back_witness:
  "failed (Rejected :: Record list fetched) \<and>
   getRecords True Rejected (browser [stored5]) t0 = Inr [revive t0 stored5] \<and>
   failed (Resolved 200 None :: Record fetched) \<and>
   saveRecord True (Resolved 200 None) draft0 (browser []) t0
     = (Inr (newLocalRecord draft0 t0), browser [stringify (newLocalRecord draft0 t0)]) \<and>
   refused (Resolved 500 None :: unit fetched) \<and>
   deleteRecord True (Resolved 500 None) (NumId 5) (browser [stored5]) t0
     = (Inr (), browser []) \<and>
   Store_create
     \<lparr>useSQLite = True, reachable = True, db = \<lparr>rows = [], seq = 0, up = False\<rparr>,
      host = browser []\<rparr> draft0 t0
     = (Inr (newLocalRecord draft0 t0),
        \<lparr>useSQLite = True, reachable = True, db = \<lparr>rows = [], seq = 0, up = False\<rparr>,
         host = browser [stringify (newLocalRecord draft0 t0)]\<rparr>)"
proof -
  let ?w = "\<lparr>useSQLite = True, reachable = True, db = \<lparr>rows = [], seq = 0, up = False\<rparr>,
      host = browser []\<rparr>"
  have f1: "failed (Rejected :: Record list fetched)" by (simp add: failed_def)
  have f2: "failed (Resolved 200 None :: Record fetched)" by (simp add: failed_def)
  have f3: "refused (Resolved 500 None :: unit fetched)" by (simp add: refused_def ok_def)
  have l: "getRecords True Rejected (browser [stored5]) t0 = Inr [revive t0 stored5]"
    using durable_failure_falls_back [where response_l = Rejected and h = "browser [stored5]" and t = t0] f1
    by (simp add: list_browser)
  have c: "saveRecord True (Resolved 200 None) draft0 (browser []) t0
     = (Inr (newLocalRecord draft0 t0), browser [stringify (newLocalRecord draft0 t0)])"
    using durable_failure_falls_back [where response_c = "Resolved 200 None" and h = "browser []"
        and t = t0 and draft = draft0] f2
    by (simp add: save_browser)
  have k: "\<not> keeps (show_int 5) stored5"
    by (simp add: keeps_num stored5_def)
  have d: "deleteRecord True (Resolved 500 None) (NumId 5) (browser [stored5]) t0 = (Inr (), browser [])"
    using durable_failure_falls_back [where response_d = "Resolved 500 None"
        and h = "browser [stored5]" and t = t0 and i = "NumId 5"] f3 k
    by (simp add: browser_def deleteLocalRecord_Window collection_def)
  have s: "Store_create ?w draft0 t0
     = (Inr (newLocalRecord draft0 t0), ?w\<lparr>host := browser [stringify (newLocalRecord draft0 t0)]\<rparr>)"
    using durable_failure_falls_back [where w = ?w and t = t0 and draft = draft0]
    by (simp add: save_browser)
  from f1 l f2 c f3 d s show ?thesis by simp
qed

section \<open>The route reads an id as the store writes it\<close>

lemma show_nat_not_Nil: "show_nat n \<noteq> []"
  by (subst show_nat.simps) simp

lemma isDigit_show_nat: "c \<in> set (show_nat n) \<Longrightarrow> isDigit c"
proof -
  assume "c \<in> set (show_nat n)"
  with show_nat_digits [of n] have "c \<in> set ''0123456789''" by (rule subsetD)
  then show ?thesis by (simp only: isDigit_def)
qed

lemma parse_digits_show_nat: "parse_digits (show_nat n) = Some n"
proof -
  have "\<forall>c\<in>set (show_nat n). isDigit c"
    using isDigit_show_nat by blast
  then have "takeWhile isDigit (show_nat n) = show_nat n"
    by (simp only: takeWhile_eq_all_conv)
  then have "parse_digits (show_nat n) = (if show_nat n = [] then None else Some (read_nat (show_nat n)))"
    by (simp only: parse_digits_def Let_def)
  then show ?thesis
    by (simp add: show_nat_not_Nil read_show_nat)
qed

lemma isSpace_first:
  "isSpace s \<Longrightarrow> hd s \<in> set (map hd white_space)"
  by (simp add: isSpace_def)

lemma plain_first:
  assumes "c \<notin> set (map hd white_space)"
  shows "space_at (c # cs) = 0"
proof -
  have "\<not> isSpace (take k (c # cs))" if "0 < k" for k
  proof
    assume "isSpace (take k (c # cs))"
    then have "hd (take k (c # cs)) \<in> set (map hd white_space)" by (rule isSpace_first)
    moreover have "hd (take k (c # cs)) = c" using that by (cases k) simp_all
    ultimately show False using assms by simp
  qed
  from this [of 1] this [of 2] this [of 3] show ?thesis
    unfolding space_at_def by simp
qed

lemma skip_plain:
  assumes "c \<notin> set (map hd white_space)"
  shows "concat (dropWhile isSpace (symbols (c # cs))) = c # cs"
proof -
  have "space_at (c # cs) = 0" using assms by (rule plain_first)
  then have sym: "symbols (c # cs) = [c] # symbols cs" by (rule symbols_plain)
  have "\<not> isSpace [c]"
  proof
    assume "isSpace [c]"
    then have "hd [c] \<in> set (map hd white_space)" by (rule isSpace_first)
    with assms show False by simp
  qed
  then have "dropWhile isSpace (symbols (c # cs)) = [c] # symbols cs"
    by (simp add: sym)
  then show ?thesis by (simp add: concat_symbols)
qed

lemma isDigit_plain:
  "isDigit c \<Longrightarrow> c \<notin> set (map hd white_space) \<and> c \<noteq> CHR ''-'' \<and> c \<noteq> CHR ''+''"
  by (auto simp: isDigit_def white_space_def)

lemma parseInt_show_nat: "parseInt (show_nat n) = Some (int n)"
proof (cases "show_nat n")
  case Nil
  then show ?thesis by (simp add: show_nat_not_Nil)
next
  case (Cons c cs)
  then have "isDigit c" using isDigit_show_nat [of c n] by simp
  then have plain: "c \<notin> set (map hd white_space)" "c \<noteq> CHR ''-''" "c \<noteq> CHR ''+''"
    using isDigit_plain [of c] by blast+
  have skip: "concat (dropWhile isSpace (symbols (c # cs))) = c # cs"
    using plain(1) by (rule skip_plain)
  have "parse_digits (c # cs) = Some n"
    using parse_digits_show_nat [of n] Cons by simp
  then show ?thesis
    using plain(2,3) by (simp add: parseInt_def Cons skip)
qed

lemma parseInt_show_int: "parseInt (show_int n) = Some n"
proof (cases "n < 0")
  case True
  have "CHR ''-'' \<notin> set (map hd white_space)" by (simp add: white_space_def)
  then have "concat (dropWhile isSpace (symbols (CHR ''-'' # show_nat (nat (- n)))))
      = CHR ''-'' # show_nat (nat (- n))"
    by (rule skip_plain)
  then show ?thesis
    using True by (simp add: show_int_def parseInt_def parse_digits_show_nat)
next
  case False
  then show ?thesis by (simp add: show_int_def parseInt_show_nat)
qed

lemma show_int_not_Nil: "show_int n \<noteq> []"
  by (simp add: show_int_def show_nat_not_Nil)

text \<open>
  Claim C1, as the code has it. A 404 from the durable backend is one more status that
  is not ok: \<open>deleteRecord\<close> then does what \<open>deleteLocalRecord\<close> does for the text of
  the id, and returns that. For the store at work, when the route answers 404 the
  database is as before and the result and the browser's storage are those of the local
  delete. So, where the stored value can be read and storage takes the result, the
  call does not raise, and the ephemeral collection keeps exactly the records whose id
  has another text (each written back as read): the ephemeral delete is executed.
\<close>

theorem not_found_falls_back_to_local_delete:
  "deleteRecord True (Resolved 404 body) i h t = deleteLocalRecord (toString i) h t \<and>
   (useSQLite w \<and> reachable w \<and>
    fst (DELETE (db w) (Some (toString i))) = Resolved 404 body \<longrightarrow>
      Store_delete w i t =
        (fst (deleteLocalRecord (toString i) (host w) t),
         w\<lparr>host := snd (deleteLocalRecord (toString i) (host w) t)\<rparr>)) \<and>
   (item ls \<noteq> Garbled \<and>
    accepts ls (map (rewritten t) (filter (keeps (toString i)) (collection (Window ls)))) \<longrightarrow>
      deleteRecord True (Resolved 404 body) i (Window ls) t =
        (Inr (),
         Window (ls\<lparr>item :=
           Saved (map (rewritten t) (filter (keeps (toString i)) (collection (Window ls))))\<rparr>)))"
proof -
  have r: "refused (Resolved 404 body)"
    by (simp add: refused_def not_ok_404)
  have a: "deleteRecord True (Resolved 404 body) i h t = deleteLocalRecord (toString i) h t" for h
    using r by (rule refused_deleteRecord)
  have b: "useSQLite w \<and> reachable w \<and>
    fst (DELETE (db w) (Some (toString i))) = Resolved 404 body \<longrightarrow>
      Store_delete w i t =
        (fst (deleteLocalRecord (toString i) (host w) t),
         w\<lparr>host := snd (deleteLocalRecord (toString i) (host w) t)\<rparr>)"
    using Store_delete_404 [of w i body t] by blast
  have c: "item ls \<noteq> Garbled \<and>
    accepts ls (map (rewritten t) (filter (keeps (toString i)) (collection (Window ls)))) \<longrightarrow>
      deleteRecord True (Resolved 404 body) i (Window ls) t =
        (Inr (),
         Window (ls\<lparr>item :=
           Saved (map (rewritten t) (filter (keeps (toString i)) (collection (Window ls))))\<rparr>))"
    by (simp add: a deleteLocalRecord_Window)
  show ?thesis
    by (rule conjI [OF a conjI [OF b c]])
qed

text \<open>
  The claim as it was stated fails when the ephemeral backend holds a record with the id
  that the durable backend does not know: here a record created locally at \<open>t0\<close>, and an
  empty table. The route answers 404, and the local record is gone afterwards.
\<close>

theorem not_found_deletes_the_local_record:
  "DELETE \<lparr>rows = [], seq = 0, up = True\<rparr> (Some (toString (NumId 1700000000000)))
     = (Resolved 404 None, \<lparr>rows = [], seq = 0, up = True\<rparr>) \<and>
   Store_delete
     \<lparr>useSQLite = True, reachable = True, db = \<lparr>rows = [], seq = 0, up = True\<rparr>,
      host = browser [stringify (newLocalRecord draft0 t0)]\<rparr>
     (NumId 1700000000000) t1
     = (Inr (),
        \<lparr>useSQLite = True, reachable = True, db = \<lparr>rows = [], seq = 0, up = True\<rparr>,
         host = browser []\<rparr>) \<and>
   collection (browser [stringify (newLocalRecord draft0 t0)]) \<noteq> collection (browser [])"
proof -
  note p = parseInt_show_int [of 1700000000000]
  note ne = show_int_not_Nil [of 1700000000000]
  have d: "DELETE \<lparr>rows = [], seq = 0, up = True\<rparr> (Some (show_int 1700000000000))
     = (Resolved 404 None, \<lparr>rows = [], seq = 0, up = True\<rparr>)"
    by (simp add: DELETE_def p ne SQLite_deleteRecord_def)
  have k: "\<not> keeps (show_int 1700000000000) (stringify (newLocalRecord draft0 t0))"
    by (simp add: keeps_num stringify_id newLocalRecord_id ms_t0)
  have l: "deleteLocalRecord (show_int 1700000000000)
        (browser [stringify (newLocalRecord draft0 t0)]) t1 = (Inr (), browser [])"
    using k by (simp add: browser_def deleteLocalRecord_Window collection_def)
  have s: "Store_delete
     \<lparr>useSQLite = True, reachable = True, db = \<lparr>rows = [], seq = 0, up = True\<rparr>,
      host = browser [stringify (newLocalRecord draft0 t0)]\<rparr>
     (NumId 1700000000000) t1
     = (Inr (),
        \<lparr>useSQLite = True, reachable = True, db = \<lparr>rows = [], seq = 0, up = True\<rparr>,
         host = browser []\<rparr>)"
    by (simp add: Store_delete_def d deleteRecord_def not_ok_404 l)
  show ?thesis
    using d s by (simp add: collection_browser)
qed

theorem not_found_falls_back_to_local_delete_witness:
  "fst (DELETE \<lparr>rows = [], seq = 0, up = True\<rparr> (Some (toString (NumId 5)))) = Resolved 404 None \<and>
   Store_delete
     \<lparr>useSQLite = True, reachable = True, db = \<lparr>rows = [], seq = 0, up = True\<rparr>,
      host = browser [stored5, anonymous]\<rparr>
     (NumId 5) t0
     = (Inr (),
        \<lparr>useSQLite = True, reachable = True, db = \<lparr>rows = [], seq = 0, up = True\<rparr>,
         host = browser [anonymous]\<rparr>) \<and>
   deleteRecord True (Resolved 404 None) (NumId 7) (browser [stored5, anonymous]) t0
     = (Inr (), browser [stored5, anonymous])"
proof -
  let ?d = "\<lparr>rows = [], seq = 0, up = True\<rparr>"
  let ?w = "\<lparr>useSQLite = True, reachable = True, db = ?d, host = browser [stored5, anonymous]\<rparr>"
  let ?ls = "\<lparr>item = Saved [stored5, anonymous], accepts = (\<lambda>v. True)\<rparr>"
  note p = parseInt_show_int [of 5]
  note ne = show_int_not_Nil [of 5]
  have d: "fst (DELETE ?d (Some (toString (NumId 5)))) = Resolved 404 None"
    by (simp add: DELETE_def p ne SQLite_deleteRecord_def)
  have k: "\<not> keeps (show_int 5) stored5" "keeps (show_int 5) anonymous"
    "keeps (show_int 7) stored5" "keeps (show_int 7) anonymous"
    by (simp_all add: keeps_num keeps_no_id stored5_def anonymous_def)
  have r: "rewritten t0 anonymous = anonymous" "rewritten t0 stored5 = stored5"
    by (simp_all add: rewritten_filled filled_def anonymous_def stored5_def)
  have l: "deleteLocalRecord (show_int 5) (browser [stored5, anonymous]) t0
      = (Inr (), browser [anonymous])"
    using k r by (simp add: browser_def deleteLocalRecord_Window collection_def)
  have s: "Store_delete ?w (NumId 5) t0 = (Inr (), ?w\<lparr>host := browser [anonymous]\<rparr>)"
    using not_found_falls_back_to_local_delete [where w = ?w and i = "NumId 5" and t = t0
        and body = None] d
    by (simp add: l)
  have u: "deleteRecord True (Resolved 404 None) (NumId 7) (browser [stored5, anonymous]) t0
     = (Inr (), browser [stored5, anonymous])"
    using not_found_falls_back_to_local_delete [where ls = ?ls and i = "NumId 7" and t = t0
        and body = None] k r
    by (simp add: browser_def collection_def deleteLocalRecord_Window)
  from d s u show ?thesis by simp
qed

section \<open>Statistics\<close>

lemma type_text_iff:
  "type_text t = s \<longleftrightarrow> (s = ''overtime'' \<and> t = Overtime) \<or> (s = ''leave'' \<and> t = Leave)"
  by (cases t) auto

lemma startsWith_take: "startsWith s p \<longleftrightarrow> take (length p) s = p"
proof
  assume "startsWith s p"
  then obtain t where "s = p @ t" by (auto simp: startsWith_def prefix_def)
  then show "take (length p) s = p" by simp
next
  assume "take (length p) s = p"
  then have "prefix p s" by (metis take_is_prefix)
  then show "startsWith s p" by (simp add: startsWith_def)
qed

lemma matchesStats_passes: "matchesStats u r = passes u r"
  unfolding matchesStats_def passes_def Let_def startsWith_take type_text_iff by blast

lemma dayValue_day_equivalent: "dayValue r = day_equivalent (duration r)"
  by (cases "duration r") (simp_all add: dayValue_def)

lemma count_name_update:
  "count_name r n m =
     AList.update n (bump r (case map_of m n of None \<Rightarrow> zero_entry n | Some v \<Rightarrow> v)) m"
  by (cases "map_of m n")
     (simp_all add: count_name_def Let_def bump_def zero_entry_def update_conv')

lemma tally_snoc: "tally (ps @ [p]) = count_name (fst p) (snd p) (tally ps)"
  by (simp add: tally_def)

lemma first_met_snoc:
  "first_met (ns @ [n]) = (if n \<in> set ns then first_met ns else first_met ns @ [n])"
  by (simp add: first_met_def)

lemma set_first_met: "set (first_met ns) = set ns"
  by (simp add: first_met_def)

lemma distinct_first_met: "distinct (first_met ns)"
  by (simp add: first_met_def)

lemma entry_of_absent: "n \<notin> snd ` set ps \<Longrightarrow> entry_of ps n = zero_entry n"
proof -
  assume "n \<notin> snd ` set ps"
  then have "filter (\<lambda>p. snd p = n) ps = []"
    by (auto simp: filter_empty_conv)
  then show ?thesis by (simp add: entry_of_def zero_entry_def)
qed

lemma entry_of_snoc_same: "entry_of (ps @ [(r, n)]) n = bump r (entry_of ps n)"
  by (cases "rtype r") (simp_all add: entry_of_def bump_def Let_def dayValue_day_equivalent)

lemma entry_of_snoc_other: "k \<noteq> n \<Longrightarrow> entry_of (ps @ [(r, n)]) k = entry_of ps k"
  by (simp add: entry_of_def)

lemma tally_invariant:
  "map fst (tally ps) = first_met (map snd ps) \<and>
   (\<forall>k. map_of (tally ps) k = (if k \<in> snd ` set ps then Some (entry_of ps k) else None))"
proof (induction ps rule: rev_induct)
  case Nil
  show ?case by (simp add: tally_def first_met_def)
next
  case (snoc p ps)
  obtain r n where p: "p = (r, n)" by (cases p)
  let ?m = "tally ps"
  from snoc have keys: "map fst ?m = first_met (map snd ps)"
    and vals: "\<And>k. map_of ?m k = (if k \<in> snd ` set ps then Some (entry_of ps k) else None)"
    by simp_all
  have old: "(case map_of ?m n of None \<Rightarrow> zero_entry n | Some v \<Rightarrow> v) = entry_of ps n"
    by (simp add: vals entry_of_absent)
  have step: "tally (ps @ [(r, n)]) = AList.update n (bump r (entry_of ps n)) ?m"
    by (simp add: tally_snoc count_name_update old)
  have k: "map fst (tally (ps @ [p])) = first_met (map snd (ps @ [p]))"
    by (simp add: step update_keys keys first_met_snoc set_first_met p)
  have v: "map_of (tally (ps @ [p])) k =
      (if k \<in> snd ` set (ps @ [p]) then Some (entry_of (ps @ [p]) k) else None)" for k
  proof (cases "k = n")
    case True
    then show ?thesis
      by (simp add: step update_conv' p entry_of_snoc_same)
  next
    case False
    then show ?thesis
      by (simp add: step update_conv' p entry_of_snoc_other vals)
  qed
  from k v show ?case by blast
qed

lemma map_snd_by_keys:
  "distinct (map fst al) \<Longrightarrow> map snd al = map (\<lambda>k. the (map_of al k)) (map fst al)"
proof (induction al)
  case Nil
  show ?case by simp
next
  case (Cons a al)
  obtain k v where a: "a = (k, v)" by (cases a)
  from Cons.prems a have nk: "k \<notin> fst ` set al" and d: "distinct (map fst al)"
    by simp_all
  have "map (\<lambda>k'. the (map_of (a # al) k')) (map fst al) = map (\<lambda>k'. the (map_of al k')) (map fst al)"
    using nk a by (intro map_cong) auto
  with Cons.IH [OF d] a show ?case by simp
qed

lemma tally_values: "map snd (tally ps) = map (entry_of ps) (first_met (map snd ps))"
proof -
  have keys: "map fst (tally ps) = first_met (map snd ps)"
    and vals: "\<And>k. map_of (tally ps) k = (if k \<in> snd ` set ps then Some (entry_of ps k) else None)"
    using tally_invariant [of ps] by simp_all
  have "distinct (map fst (tally ps))"
    by (simp add: keys distinct_first_met)
  then have "map snd (tally ps) = map (\<lambda>k. the (map_of (tally ps) k)) (first_met (map snd ps))"
    using map_snd_by_keys [of "tally ps"] by (simp add: keys)
  also have "\<dots> = map (entry_of ps) (first_met (map snd ps))"
    by (rule map_cong) (auto simp: vals set_first_met)
  finally show ?thesis .
qed

lemma fold_mentions:
  "fold (\<lambda>record m. fold (count_name record) (names record) m) rs m
     = fold (\<lambda>p. count_name (fst p) (snd p)) (mentions rs) m"
proof (induction rs arbitrary: m)
  case Nil
  show ?case by (simp add: mentions_def)
next
  case (Cons r rs)
  have "fold (\<lambda>p. count_name (fst p) (snd p)) (map (Pair r) (names r)) m
      = fold (count_name r) (names r) m"
    by (simp add: fold_map o_def)
  with Cons show ?case by (simp add: mentions_def)
qed

lemma filter_passes: "filter (matchesStats u) rs = filter (passes u) rs"
  by (rule filter_cong) (simp_all add: matchesStats_passes)

lemma statistics_reference: "statistics lc u = reference_statistics lc u"
  by (simp add: statistics_def reference_statistics_def Let_def fold_mentions
      tally_def [symmetric] tally_values filter_passes)

lemma mset_insert_by: "mset (insert_by cmp x ys) = add_mset x (mset ys)"
  by (induction ys) simp_all

lemma mset_fold_insert_by: "mset (fold (insert_by cmp) xs acc) = mset xs + mset acc"
  by (induction xs arbitrary: acc) (simp_all add: mset_insert_by)

lemma mset_sort_by: "mset (sort_by cmp xs) = mset xs"
  by (simp add: sort_by_def mset_fold_insert_by)

lemma set_insert_by: "set (insert_by cmp x ys) = insert x (set ys)"
  by (induction ys) auto

lemma sorted_insert_by:
  assumes anti': "\<forall>a b. (cmp a b < 0) = (cmp b a > (0::int))"
    and trans': "\<forall>a b c. cmp a b \<le> 0 \<longrightarrow> cmp b c \<le> 0 \<longrightarrow> cmp a c \<le> 0"
    and sorted: "sorted_wrt (\<lambda>a b. cmp a b \<le> 0) ys"
  shows "sorted_wrt (\<lambda>a b. cmp a b \<le> 0) (insert_by cmp x ys)"
  using sorted
proof (induction ys)
  case Nil
  show ?case by simp
next
  case (Cons y ys)
  note cmp_anti = anti' [rule_format]
  note cmp_trans = trans' [rule_format]
  show ?case
  proof (cases "cmp x y < 0")
    case True
    then have xy: "cmp x y \<le> 0" by simp
    have "cmp x z \<le> 0" if "z \<in> set ys" for z
    proof -
      from Cons.prems that have "cmp y z \<le> 0" by simp
      with xy show ?thesis by (rule cmp_trans)
    qed
    with True xy Cons.prems show ?thesis by simp
  next
    case False
    have "\<not> cmp y x > 0" using False cmp_anti [of x y] by simp
    then have yx: "cmp y x \<le> 0" by simp
    from Cons.prems have "sorted_wrt (\<lambda>a b. cmp a b \<le> 0) ys" by simp
    then have "sorted_wrt (\<lambda>a b. cmp a b \<le> 0) (insert_by cmp x ys)" by (rule Cons.IH)
    with False yx Cons.prems show ?thesis by (auto simp: set_insert_by)
  qed
qed

lemma sorted_fold_insert_by:
  assumes anti: "\<forall>a b. (cmp a b < 0) = (cmp b a > (0::int))"
    and trans: "\<forall>a b c. cmp a b \<le> 0 \<longrightarrow> cmp b c \<le> 0 \<longrightarrow> cmp a c \<le> 0"
  shows "sorted_wrt (\<lambda>a b. cmp a b \<le> 0) acc \<Longrightarrow>
    sorted_wrt (\<lambda>a b. cmp a b \<le> 0) (fold (insert_by cmp) xs acc)"
proof (induction xs arbitrary: acc)
  case Nil
  then show ?case by simp
next
  case (Cons x xs)
  from Cons.prems have "sorted_wrt (\<lambda>a b. cmp a b \<le> 0) (insert_by cmp x acc)"
    by (rule sorted_insert_by [OF anti trans])
  then show ?case using Cons.IH by simp
qed

lemma sorted_sort_by:
  assumes "\<forall>a b. (cmp a b < 0) = (cmp b a > (0::int))"
    and "\<forall>a b c. cmp a b \<le> 0 \<longrightarrow> cmp b c \<le> 0 \<longrightarrow> cmp a c \<le> 0"
  shows "sorted_wrt (\<lambda>a b. cmp a b \<le> 0) (sort_by cmp xs)"
  unfolding sort_by_def by (rule sorted_fold_insert_by [OF assms]) simp

lemma sorted_statistics:
  assumes "consistent lc"
  shows "sorted_wrt (\<lambda>a b. lc (name a) (name b) \<le> 0) (statistics lc u)"
proof -
  from assms have anti: "\<forall>a b. (lc a b < 0) = (lc b a > 0)"
    and trans: "\<forall>a b c. lc a b \<le> 0 \<longrightarrow> lc b c \<le> 0 \<longrightarrow> lc a c \<le> 0"
    unfolding consistent_def by blast+
  have anti': "\<forall>a b. (lc (name a) (name b) < 0) = (lc (name b) (name a) > 0)"
    for dummy :: Statistics
    using anti by blast
  have trans': "\<forall>a b c. lc (name a) (name b) \<le> 0 \<longrightarrow> lc (name b) (name c) \<le> 0
      \<longrightarrow> lc (name a) (name c) \<le> 0"
    using trans by blast
  show ?thesis
    unfolding statistics_def Let_def
    by (rule sorted_sort_by [where cmp = "\<lambda>a b. lc (name a) (name b)", OF anti' trans'])
qed

lemma compare_text_anti: "(compare_text a b < 0) = (compare_text b a > 0)"
  by (induction a b rule: compare_text.induct) auto

lemma compare_text_trans:
  "compare_text a b \<le> 0 \<Longrightarrow> compare_text b c \<le> 0 \<Longrightarrow> compare_text a c \<le> 0"
proof (induction a b arbitrary: c rule: compare_text.induct)
  case 1
  then show ?case by simp
next
  case (2 d ds)
  then show ?case by (cases c) simp_all
next
  case (3 c' cs)
  then show ?case by simp
next
  case (4 x xs y ys)
  show ?case
  proof (cases c)
    case Nil
    with 4 show ?thesis by (simp split: if_splits)
  next
    case (Cons z zs)
    show ?thesis
    proof (cases "(of_char x :: nat) < of_char y")
      case True
      with "4.prems" Cons show ?thesis by (auto split: if_splits)
    next
      case False
      with "4.prems"(1) have eq: "(of_char x :: nat) = of_char y" and rest: "compare_text xs ys \<le> 0"
        by (auto split: if_splits)
      show ?thesis
      proof (cases "(of_char y :: nat) < of_char z")
        case True
        with eq Cons show ?thesis by simp
      next
        case yz: False
        with "4.prems"(2) Cons have eq': "(of_char y :: nat) = of_char z" and rest': "compare_text ys zs \<le> 0"
          by (auto split: if_splits)
        from "4.IH" [OF _ _ rest rest'] False eq have "compare_text xs zs \<le> 0" by simp
        with eq eq' Cons show ?thesis by simp
      qed
    qed
  qed
qed

lemma consistent_compare_text: "consistent compare_text"
  unfolding consistent_def using compare_text_anti compare_text_trans by blast

lemma example_entries:
  "map (entry_of (mentions [rec_A, rec_AB])) (first_met (map snd (mentions [rec_A, rec_AB])))
     = [\<lparr>name = ''A'', overtimeCount = 1, leaveCount = 1, overtimeDays = 1, leaveDays = 1 / 2\<rparr>,
        \<lparr>name = ''B'', overtimeCount = 0, leaveCount = 1, overtimeDays = 0, leaveDays = 1 / 2\<rparr>]"
  by (simp add: mentions_def first_met_def entry_of_def rec_A_def rec_AB_def)

lemma example_statistics:
  assumes "consistent lc" and "lc ''A'' ''B'' < 0"
  shows "statistics lc (ui0 [rec_A, rec_AB])
     = [\<lparr>name = ''A'', overtimeCount = 1, leaveCount = 1, overtimeDays = 1, leaveDays = 1 / 2\<rparr>,
        \<lparr>name = ''B'', overtimeCount = 0, leaveCount = 1, overtimeDays = 0, leaveDays = 1 / 2\<rparr>]"
proof -
  from assms have "lc ''B'' ''A'' > 0"
    unfolding consistent_def by blast
  then have nlt: "\<not> lc ''B'' ''A'' < 0" by simp
  have recs: "filter (passes (ui0 [rec_A, rec_AB])) (records (ui0 [rec_A, rec_AB])) = [rec_A, rec_AB]"
    by (simp add: passes_def ui0_def)
  show ?thesis
    unfolding statistics_reference reference_statistics_def Let_def recs example_entries
    using nlt by (simp add: sort_by_def)
qed

lemma leave_2024_passing:
  "filter (passes leave_2024) (records leave_2024) = [rec_BC, rec_AB]"
  by (simp add: passes_def leave_2024_def ui0_def four_records_def
      rec_A_def rec_AB_def rec_BC_def rec_old_def)

lemma leave_2024_entries:
  "map (entry_of (mentions [rec_BC, rec_AB])) (first_met (map snd (mentions [rec_BC, rec_AB])))
     = [\<lparr>name = ''C'', overtimeCount = 0, leaveCount = 1, overtimeDays = 0, leaveDays = 1 / 2\<rparr>,
        \<lparr>name = ''B'', overtimeCount = 0, leaveCount = 2, overtimeDays = 0, leaveDays = 1\<rparr>,
        \<lparr>name = ''A'', overtimeCount = 0, leaveCount = 1, overtimeDays = 0, leaveDays = 1 / 2\<rparr>]"
  by (simp add: mentions_def first_met_def entry_of_def rec_AB_def rec_BC_def)

lemma leave_2024_reference:
  "reference_statistics compare_text leave_2024
     = [\<lparr>name = ''A'', overtimeCount = 0, leaveCount = 1, overtimeDays = 0, leaveDays = 1 / 2\<rparr>,
        \<lparr>name = ''B'', overtimeCount = 0, leaveCount = 2, overtimeDays = 0, leaveDays = 1\<rparr>,
        \<lparr>name = ''C'', overtimeCount = 0, leaveCount = 1, overtimeDays = 0, leaveDays = 1 / 2\<rparr>]"
  unfolding reference_statistics_def Let_def leave_2024_passing leave_2024_entries
  by (simp add: sort_by_def)

lemma january_passing:
  "filter (passes january) (records january) = [rec_A]"
  by (simp add: passes_def january_def ui0_def four_records_def
      rec_A_def rec_AB_def rec_BC_def rec_old_def)

lemma january_reference:
  "reference_statistics compare_text january
     = [\<lparr>name = ''A'', overtimeCount = 1, leaveCount = 0, overtimeDays = 1, leaveDays = 0\<rparr>]"
  unfolding reference_statistics_def Let_def january_passing
  by (simp add: mentions_def first_met_def entry_of_def sort_by_def rec_A_def)

text \<open>
  Claim C4. For every record collection and every statistics filter, \<open>statistics\<close> is
  the reference aggregation: over the records that pass the filter (type, year prefix and
  month prefix, each either \<open>all\<close> or met), each name met has one entry, which counts
  the mentions of the name by type (a name listed twice in a record counts twice) and
  adds 1 per mention by a full-day record and 0.5 per mention by a morning or an
  afternoon record, so an entry starts from zero; the output holds exactly these entries,
  once each, and for a consistent \<open>localeCompare\<close> it is sorted by name. For the two
  records of the example, with A before B, the result is A with 1, 1, 1, 0.5 and B with
  0, 0, 1, 0.5 (overtime count, overtime days, leave count, leave days). Of four records
  (a leave of an afternoon for C and B, an overtime for A, a leave of a morning for A and
  B, a leave of the year before for C), the filter "leave, 2024" keeps the second and the
  third and gives A, B, C with 1, 2, 1 leaves and 0.5, 1, 0.5 days; the filter "2024-01"
  keeps the overtime alone.
\<close>

theorem statistics_is_reference_aggregation:
  "statistics localeCompare u = reference_statistics localeCompare u \<and>
   mset (statistics localeCompare u) =
     mset (map (entry_of (mentions (filter (passes u) (records u))))
            (first_met (map snd (mentions (filter (passes u) (records u)))))) \<and>
   (consistent localeCompare \<longrightarrow>
      sorted_wrt (\<lambda>a b. localeCompare (name a) (name b) \<le> 0) (statistics localeCompare u) \<and>
      (localeCompare ''A'' ''B'' < 0 \<longrightarrow>
         statistics localeCompare (ui0 [rec_A, rec_AB]) =
           [\<lparr>name = ''A'', overtimeCount = 1, leaveCount = 1, overtimeDays = 1, leaveDays = 1 / 2\<rparr>,
            \<lparr>name = ''B'', overtimeCount = 0, leaveCount = 1, overtimeDays = 0, leaveDays = 1 / 2\<rparr>])) \<and>
   statistics compare_text leave_2024 =
     [\<lparr>name = ''A'', overtimeCount = 0, leaveCount = 1, overtimeDays = 0, leaveDays = 1 / 2\<rparr>,
      \<lparr>name = ''B'', overtimeCount = 0, leaveCount = 2, overtimeDays = 0, leaveDays = 1\<rparr>,
      \<lparr>name = ''C'', overtimeCount = 0, leaveCount = 1, overtimeDays = 0, leaveDays = 1 / 2\<rparr>] \<and>
   statistics compare_text january =
     [\<lparr>name = ''A'', overtimeCount = 1, leaveCount = 0, overtimeDays = 1, leaveDays = 0\<rparr>]"
proof -
  have a: "statistics localeCompare u = reference_statistics localeCompare u"
    by (rule statistics_reference)
  have b: "mset (statistics localeCompare u) =
     mset (map (entry_of (mentions (filter (passes u) (records u))))
            (first_met (map snd (mentions (filter (passes u) (records u))))))"
    unfolding a reference_statistics_def Let_def by (rule mset_sort_by)
  have c: "consistent localeCompare \<longrightarrow>
      sorted_wrt (\<lambda>a b. localeCompare (name a) (name b) \<le> 0) (statistics localeCompare u) \<and>
      (localeCompare ''A'' ''B'' < 0 \<longrightarrow>
         statistics localeCompare (ui0 [rec_A, rec_AB]) =
           [\<lparr>name = ''A'', overtimeCount = 1, leaveCount = 1, overtimeDays = 1, leaveDays = 1 / 2\<rparr>,
            \<lparr>name = ''B'', overtimeCount = 0, leaveCount = 1, overtimeDays = 0, leaveDays = 1 / 2\<rparr>])"
    using sorted_statistics [of localeCompare u] example_statistics [of localeCompare]
    by blast
  have d: "statistics compare_text leave_2024 =
     [\<lparr>name = ''A'', overtimeCount = 0, leaveCount = 1, overtimeDays = 0, leaveDays = 1 / 2\<rparr>,
      \<lparr>name = ''B'', overtimeCount = 0, leaveCount = 2, overtimeDays = 0, leaveDays = 1\<rparr>,
      \<lparr>name = ''C'', overtimeCount = 0, leaveCount = 1, overtimeDays = 0, leaveDays = 1 / 2\<rparr>]"
    by (simp only: statistics_reference leave_2024_reference)
  have e: "statistics compare_text january =
     [\<lparr>name = ''A'', overtimeCount = 1, leaveCount = 0, overtimeDays = 1, leaveDays = 0\<rparr>]"
    by (simp only: statistics_reference january_reference)
  show ?thesis
    by (rule conjI [OF a conjI [OF b conjI [OF c conjI [OF d e]]]])
qed

theorem statistics_is_reference_aggregation_witness:
  "consistent compare_text \<and> compare_text ''A'' ''B'' < 0 \<and>
   statistics compare_text (ui0 [rec_A, rec_AB]) =
     [\<lparr>name = ''A'', overtimeCount = 1, leaveCount = 1, overtimeDays = 1, leaveDays = 1 / 2\<rparr>,
      \<lparr>name = ''B'', overtimeCount = 0, leaveCount = 1, overtimeDays = 0, leaveDays = 1 / 2\<rparr>] \<and>
   sorted_wrt (\<lambda>a b. compare_text (name a) (name b) \<le> 0)
     (statistics compare_text (ui0 [rec_AB, rec_A])) \<and>
   statistics compare_text (ui0 [rec_AB, rec_A]) =
     reference_statistics compare_text (ui0 [rec_AB, rec_A]) \<and>
   filter (passes leave_2024) (records leave_2024) = [rec_BC, rec_AB] \<and>
   sorted_wrt (\<lambda>a b. compare_text (name a) (name b) \<le> 0) (statistics compare_text leave_2024) \<and>
   statistics compare_text leave_2024 = reference_statistics compare_text leave_2024 \<and>
   reference_statistics compare_text leave_2024 =
     [\<lparr>name = ''A'', overtimeCount = 0, leaveCount = 1, overtimeDays = 0, leaveDays = 1 / 2\<rparr>,
      \<lparr>name = ''B'', overtimeCount = 0, leaveCount = 2, overtimeDays = 0, leaveDays = 1\<rparr>,
      \<lparr>name = ''C'', overtimeCount = 0, leaveCount = 1, overtimeDays = 0, leaveDays = 1 / 2\<rparr>]"
proof -
  have lt: "compare_text ''A'' ''B'' < 0" by simp
  note T = statistics_is_reference_aggregation [where localeCompare = compare_text]
  from T [of "ui0 [rec_A, rec_AB]"] consistent_compare_text lt
  have e: "statistics compare_text (ui0 [rec_A, rec_AB]) =
     [\<lparr>name = ''A'', overtimeCount = 1, leaveCount = 1, overtimeDays = 1, leaveDays = 1 / 2\<rparr>,
      \<lparr>name = ''B'', overtimeCount = 0, leaveCount = 1, overtimeDays = 0, leaveDays = 1 / 2\<rparr>]"
    by blast
  from T [of "ui0 [rec_AB, rec_A]"] consistent_compare_text
  have s: "sorted_wrt (\<lambda>a b. compare_text (name a) (name b) \<le> 0)
     (statistics compare_text (ui0 [rec_AB, rec_A]))"
    and r: "statistics compare_text (ui0 [rec_AB, rec_A]) =
     reference_statistics compare_text (ui0 [rec_AB, rec_A])"
    by blast+
  from T [of leave_2024] consistent_compare_text
  have s': "sorted_wrt (\<lambda>a b. compare_text (name a) (name b) \<le> 0)
     (statistics compare_text leave_2024)"
    and r': "statistics compare_text leave_2024 = reference_statistics compare_text leave_2024"
    by blast+
  note p = leave_2024_passing
  note v = leave_2024_reference
  show ?thesis
    by (rule conjI [OF consistent_compare_text conjI [OF lt conjI [OF e conjI [OF s
          conjI [OF r conjI [OF p conjI [OF s' conjI [OF r' v]]]]]]]])
qed

section \<open>The records view\<close>

text \<open>
  What \<open>filteredRecords\<close> tests: a record is shown when every predicate holds, where the
  date filter is unset when no date is picked, the type filter when it is \<open>all\<close>, and
  the month, year and name filters when their text is empty.
\<close>

lemma includes_str_sublist: "includes_str s sub \<longleftrightarrow> sublist sub s"
  by (induction s) (auto simp: sublist_Cons_right)

lemma matchesFilter_iff:
  "matchesFilter u r \<longleftrightarrow>
     (filterDate u = None \<or> filterDate u = Some (date r)) \<and>
     (filterType u = ''all'' \<or> filterType u = type_text (rtype r)) \<and>
     (filterMonth u = [] \<or> prefix (filterMonth u) (date r)) \<and>
     (filterYear u = [] \<or> prefix (filterYear u) (date r)) \<and>
     (searchName u = [] \<or>
        (\<exists>n\<in>set (names r). sublist (toLowerCase (searchName u)) (toLowerCase n)))"
  by (cases "filterDate u")
     (auto simp: matchesFilter_def startsWith_def includes_str_sublist list_ex_iff)

text \<open>
  Claim C5 asks that the choice "all" of the year and month selectors restricts
  nothing. The selectors of the records view set \<open>filterYear\<close> and \<open>filterMonth\<close> to the
  text \<open>all\<close>, which \<open>filteredRecords\<close> takes for a prefix that the date must start with
  (only the empty text is unset there, unlike in \<open>statistics\<close>): with no filter the
  record of 2024-01-05 is shown, with the year or the month set to \<open>all\<close> the view is
  empty, and with the year 2024 the record is shown again.
\<close>

theorem all_years_choice_hides_every_record:
  "filteredRecords (ui0 [rec_A]) = [rec_A] \<and>
   filteredRecords ((ui0 [rec_A])\<lparr>filterYear := ''all''\<rparr>) = [] \<and>
   filteredRecords ((ui0 [rec_A])\<lparr>filterMonth := ''all''\<rparr>) = [] \<and>
   filteredRecords ((ui0 [rec_A])\<lparr>filterYear := ''2024''\<rparr>) = [rec_A]"
  by (simp add: filteredRecords_def matchesFilter_def ui0_def rec_A_def startsWith_def)

end
